theory Spec2Isabelle
  imports Main "HOL-Library.Char_ord" "HOL-Library.List_Lexorder"
begin

section \<open>Python strings\<close>

text \<open>
  A Python \<open>str\<close> is modelled as a \<^typ>\<open>string\<close>; every character stands for the code
  point of the same number, so the model covers text whose code points are below 256
  (the ENZYME flat file and the accession tables are ASCII).  The character classes
  below are those of CPython for that range.
\<close>

definition isspace :: "char \<Rightarrow> bool" where
  \<comment> \<open>\<open>str.isspace\<close> on one character: TAB..CR, FS..US, SPACE, NEL, NBSP\<close>
  "isspace c =
     (let n = (of_char c :: nat)
      in (9 \<le> n \<and> n \<le> 13) \<or> (28 \<le> n \<and> n \<le> 32) \<or> n = 133 \<or> n = 160)"

definition strip :: "string \<Rightarrow> string" where
  \<comment> \<open>\<open>s.strip()\<close>\<close>
  "strip s = rev (dropWhile isspace (rev (dropWhile isspace s)))"

definition rstrip_newline :: "string \<Rightarrow> string" where
  \<comment> \<open>\<open>s.rstrip("\n")\<close>\<close>
  "rstrip_newline s = rev (dropWhile (\<lambda>c. c = CHR 0x0A) (rev s))"

fun split_ws :: "string \<Rightarrow> string \<Rightarrow> string list" where
  \<comment> \<open>\<open>s.split()\<close>; the first argument is the token being read\<close>
  "split_ws w [] = (if w = [] then [] else [w])"
| "split_ws w (c # cs) =
     (if isspace c then (if w = [] then [] else [w]) @ split_ws [] cs
      else split_ws (w @ [c]) cs)"

fun split_on :: "char \<Rightarrow> string \<Rightarrow> string \<Rightarrow> string list" where
  \<comment> \<open>\<open>s.split(sep)\<close> for a one-character separator; the second argument is the token being read\<close>
  "split_on sep w [] = [w]"
| "split_on sep w (c # cs) =
     (if c = sep then w # split_on sep [] cs else split_on sep (w @ [c]) cs)"

fun join :: "string \<Rightarrow> string list \<Rightarrow> string" where
  \<comment> \<open>\<open>sep.join(xs)\<close>\<close>
  "join sep [] = []"
| "join sep [x] = x"
| "join sep (x # y # ys) = x @ sep @ join sep (y # ys)"

definition or_None :: "string \<Rightarrow> string option" where
  \<comment> \<open>\<open>s or None\<close>: the empty string is falsy\<close>
  "or_None s = (if s = [] then None else Some s)"

definition startswith :: "string \<Rightarrow> string \<Rightarrow> bool" where
  "startswith s p = (take (length p) s = p)"

section \<open>Record parser (\<open>parse_enzyme_core.py\<close>)\<close>

subsection \<open>The regular expression of the \<open>DR\<close> branch\<close>

definition in_class :: "char \<Rightarrow> bool" where
  \<comment> \<open>the character class \<open>[A-Z0-9]\<close>\<close>
  "in_class c =
     (let n = (of_char c :: nat) in (65 \<le> n \<and> n \<le> 90) \<or> (48 \<le> n \<and> n \<le> 57))"

definition isalnum :: "char \<Rightarrow> bool" where
  \<comment> \<open>\<open>str.isalnum\<close> on one character (letters and numeric characters below 256)\<close>
  "isalnum c =
     (let n = (of_char c :: nat)
      in (48 \<le> n \<and> n \<le> 57) \<or> (65 \<le> n \<and> n \<le> 90) \<or> (97 \<le> n \<and> n \<le> 122)
         \<or> n = 170 \<or> n = 178 \<or> n = 179 \<or> n = 181 \<or> n = 185 \<or> n = 186
         \<or> (188 \<le> n \<and> n \<le> 190) \<or> (192 \<le> n \<and> n \<le> 214)
         \<or> (216 \<le> n \<and> n \<le> 246) \<or> (248 \<le> n \<and> n \<le> 255))"

definition is_word :: "char \<Rightarrow> bool" where
  \<comment> \<open>the class \<open>\w\<close> of a \<open>str\<close> pattern: alphanumeric or underscore\<close>
  "is_word c = (isalnum c \<or> c = CHR ''_'')"

definition word_boundary :: "char option \<Rightarrow> char option \<Rightarrow> bool" where
  \<comment> \<open>\<open>\b\<close> between the character before and the character after the position
      (\<open>None\<close> at either end of the text): exactly one side is a word character\<close>
  "word_boundary prev next =
     ((case prev of None \<Rightarrow> False | Some c \<Rightarrow> is_word c)
      \<noteq> (case next of None \<Rightarrow> False | Some c \<Rightarrow> is_word c))"

definition char_at :: "string \<Rightarrow> nat \<Rightarrow> char option" where
  "char_at s i = (if i < length s then Some (s ! i) else None)"

definition match_here :: "char option \<Rightarrow> string \<Rightarrow> bool" where
  \<comment> \<open>does \<open>\b([A-Z0-9]{6})\b\<close> match at the start of \<open>s\<close>, \<open>prev\<close> being the
      character in front of it\<close>
  "match_here prev s =
     (word_boundary prev (char_at s 0)
      \<and> length (take 6 s) = 6 \<and> list_all in_class (take 6 s)
      \<and> word_boundary (char_at s 5) (char_at s 6))"

function findall_from :: "char option \<Rightarrow> string \<Rightarrow> string list" where
  \<comment> \<open>\<open>re.findall\<close>: scan left to right; after a match resume behind it, otherwise
      move one character on\<close>
  "findall_from prev [] = []"
| "findall_from prev (c # cs) =
     (if match_here prev (c # cs)
      then take 6 (c # cs) # findall_from (char_at (c # cs) 5) (drop 6 (c # cs))
      else findall_from (Some c) cs)"
  by pat_completeness auto
termination
  by (relation "measure (\<lambda>(b, s). length s)") auto

definition findall :: "string \<Rightarrow> string list" where
  "findall content = findall_from None content"

definition dr_accessions :: "string \<Rightarrow> string list" where
  \<comment> \<open>the tokens the \<open>DR\<close> branch appends, in order\<close>
  "dr_accessions content = filter (\<lambda>acc. \<not> startswith acc ''PS'') (findall content)"

subsection \<open>Accumulator and rows\<close>

record entry =
  cur_EC_number :: "string option"
  cur_Enzyme_name :: "string list"
  cur_Alt_names :: "string list"
  cur_Reaction :: "string list"
  cur_Prosite_refs :: "string list"
  cur_UniProt_IDs :: "string list"

record enzyme_row =
  EC_number :: "string option"
  Enzyme_name :: "string option"
  Alt_names :: "string option"
  Reaction :: "string option"
  Prosite_refs :: "string option"
  UniProt_IDs :: "string option"

record pstate =
  current :: entry
  rows :: "enzyme_row list"

definition empty_entry :: entry where
  "empty_entry =
     \<lparr>cur_EC_number = None, cur_Enzyme_name = [], cur_Alt_names = [], cur_Reaction = [],
      cur_Prosite_refs = [], cur_UniProt_IDs = []\<rparr>"

definition row_of :: "entry \<Rightarrow> enzyme_row" where
  \<comment> \<open>the dictionary \<open>flush_entry\<close> appends\<close>
  "row_of e =
     \<lparr>EC_number = cur_EC_number e,
      Enzyme_name = or_None (join '' '' (cur_Enzyme_name e)),
      Alt_names = or_None (join '' '' (cur_Alt_names e)),
      Reaction = or_None (join '' '' (cur_Reaction e)),
      Prosite_refs = or_None (join ''; '' (cur_Prosite_refs e)),
      UniProt_IDs = or_None (join '','' (cur_UniProt_IDs e))\<rparr>"

definition flush_entry :: "pstate \<Rightarrow> pstate" where
  "flush_entry st =
     (if cur_EC_number (current st) = None then st
      else \<lparr>current = empty_entry, rows = rows st @ [row_of (current st)]\<rparr>)"

definition process_line :: "pstate \<Rightarrow> string \<Rightarrow> pstate" where
  \<comment> \<open>one iteration of the loop over the file's lines\<close>
  "process_line st raw =
     (let line = rstrip_newline raw
      in if line = [] then st
         else
           let code = take 2 line;
               content = strip (drop 5 line);
               cur = current st
           in if code = ''ID'' then
                (let st1 = (if cur_EC_number cur \<noteq> None then flush_entry st else st);
                     parts = split_ws [] content
                 in st1\<lparr>current := (current st1)
                      \<lparr>cur_EC_number := (case parts of [] \<Rightarrow> None | p # _ \<Rightarrow> Some p)\<rparr>\<rparr>)
              else if code = ''DE'' then
                st\<lparr>current := cur\<lparr>cur_Enzyme_name := cur_Enzyme_name cur @ [content]\<rparr>\<rparr>
              else if code = ''AN'' then
                st\<lparr>current := cur\<lparr>cur_Alt_names := cur_Alt_names cur @ [content]\<rparr>\<rparr>
              else if code = ''CA'' then
                st\<lparr>current := cur\<lparr>cur_Reaction := cur_Reaction cur @ [content]\<rparr>\<rparr>
              else if code = ''PR'' then
                st\<lparr>current := cur\<lparr>cur_Prosite_refs := cur_Prosite_refs cur @ [content]\<rparr>\<rparr>
              else if code = ''DR'' then
                st\<lparr>current := cur\<lparr>cur_UniProt_IDs := cur_UniProt_IDs cur @ dr_accessions content\<rparr>\<rparr>
              else if code = ''//'' then flush_entry st
              else st)"

definition initial_state :: pstate where
  "initial_state = \<lparr>current = empty_entry, rows = []\<rparr>"

definition parse_enzyme_dat :: "string list \<Rightarrow> enzyme_row list" where
  \<comment> \<open>the argument is the sequence of lines the file iterator yields\<close>
  "parse_enzyme_dat lines = rows (flush_entry (foldl process_line initial_state lines))"

subsection \<open>Reference notions for the parser\<close>

definition line_id :: "string \<Rightarrow> string option" where
  \<comment> \<open>the classification id a line opens an entry with: the first whitespace-delimited
      token of an \<open>ID\<close> line, if it has one\<close>
  "line_id raw =
     (let line = rstrip_newline raw
      in if take 2 line = ''ID''
         then (case split_ws [] (strip (drop 5 line)) of [] \<Rightarrow> None | p # _ \<Rightarrow> Some p)
         else None)"

definition entry_ids :: "string list \<Rightarrow> string list" where
  \<comment> \<open>the classification entries of a file, by id, in file order\<close>
  "entry_ids lines = List.map_filter line_id lines"

definition ids_of :: "pstate \<Rightarrow> string option list" where
  \<comment> \<open>ids emitted so far, followed by the id of the open entry\<close>
  "ids_of st =
     map EC_number (rows st)
     @ (case cur_EC_number (current st) of None \<Rightarrow> [] | Some i \<Rightarrow> [Some i])"

definition token_at :: "(char \<Rightarrow> bool) \<Rightarrow> string \<Rightarrow> nat \<Rightarrow> bool" where
  \<comment> \<open>position \<open>i\<close> starts six characters of \<open>[A-Z0-9]\<close> whose neighbours, where there
      are any, are not \<open>wordlike\<close>\<close>
  "token_at wordlike s i =
     (i + 6 \<le> length s \<and> list_all in_class (take 6 (drop i s))
      \<and> (i = 0 \<or> \<not> wordlike (s ! (i - 1)))
      \<and> (i + 6 = length s \<or> \<not> wordlike (s ! (i + 6))))"

definition tokens_bounded_by :: "(char \<Rightarrow> bool) \<Rightarrow> string \<Rightarrow> string list" where
  \<comment> \<open>all such tokens, in order of appearance\<close>
  "tokens_bounded_by wordlike s =
     map (\<lambda>i. take 6 (drop i s)) (filter (token_at wordlike s) [0..<length s])"

definition claimed_accessions :: "string \<Rightarrow> string list" where
  \<comment> \<open>the specification's wording: runs of six bounded by non-alphanumeric characters,
      without those starting with \<open>PS\<close>\<close>
  "claimed_accessions content =
     filter (\<lambda>acc. \<not> startswith acc ''PS'') (tokens_bounded_by isalnum content)"

fun dedup_by_appearance :: "'a list \<Rightarrow> 'a list \<Rightarrow> 'a list" where
  \<comment> \<open>keep the first occurrence of every element; the first argument lists those seen\<close>
  "dedup_by_appearance seen [] = []"
| "dedup_by_appearance seen (x # xs) =
     (if x \<in> set seen then dedup_by_appearance seen xs
      else x # dedup_by_appearance (x # seen) xs)"

definition claimed_row :: "entry \<Rightarrow> enzyme_row" where
  \<comment> \<open>the specification's wording of the flushed record: a field is null if its list is
      empty, and the accessions are deduplicated by appearance\<close>
  "claimed_row e =
     \<lparr>EC_number = cur_EC_number e,
      Enzyme_name = (if cur_Enzyme_name e = [] then None else Some (join '' '' (cur_Enzyme_name e))),
      Alt_names = (if cur_Alt_names e = [] then None else Some (join '' '' (cur_Alt_names e))),
      Reaction = (if cur_Reaction e = [] then None else Some (join '' '' (cur_Reaction e))),
      Prosite_refs =
        (if cur_Prosite_refs e = [] then None else Some (join ''; '' (cur_Prosite_refs e))),
      UniProt_IDs = or_None (join '','' (dedup_by_appearance [] (cur_UniProt_IDs e)))\<rparr>"

section \<open>Tables\<close>

text \<open>
  The tables are those \<open>pd.read_csv\<close> returns, not the text of the files.  A cell is a value
  or missing (\<open>NaN\<close>, \<open>pd.NA\<close>).  Where the code only carries and compares cells, a cell is
  a \<^typ>\<open>string option\<close>.  Where the code renders a value with \<open>astype(str)\<close> or an f-string,
  or sorts values, the values have an arbitrary type \<open>'v\<close> and the rendering is a parameter
  \<open>astype_str\<close>: what it returns depends on the dtype \<open>read_csv\<close> inferred for the column (the
  id \<open>123456\<close> renders as \<open>123456\<close> in an integer column and as \<open>123456.0\<close> in a float column,
  which a column of digits with a missing cell is).

  Tables whose columns the code addresses by fixed labels are lists of records with those
  labels as fields, so a table without a required column is not an input of the model.
  The table built from a lookup response, whose labels are not known in advance, is a
  \<open>frame\<close>: its labels, which may repeat, and its rows.
\<close>

type_synonym cell = "string option"

datatype py_error =
    ValueError
  | ParserError
  | FileNotFoundError
  | KeyError
  | Unaligned_labels  \<comment> \<open>not an exception: marks a call of \<open>pd.concat\<close> that is not modelled\<close>

definition dropna :: "'a option list \<Rightarrow> 'a list" where
  \<comment> \<open>\<open>column.dropna()\<close>\<close>
  "dropna col = List.map_filter (\<lambda>c. c) col"

fun keep_first :: "('a \<Rightarrow> 'k) \<Rightarrow> 'k list \<Rightarrow> 'a list \<Rightarrow> 'a list" where
  \<comment> \<open>\<open>drop_duplicates\<close> with the default \<open>keep="first"\<close>: a row survives unless an earlier
      row has the same key; the second argument lists the keys seen\<close>
  "keep_first key seen [] = []"
| "keep_first key seen (x # xs) =
     (if key x \<in> set seen then keep_first key seen xs
      else x # keep_first key (key x # seen) xs)"

definition unique :: "'a list \<Rightarrow> 'a list" where
  \<comment> \<open>\<open>Series.unique()\<close> and \<open>DataFrame.drop_duplicates()\<close> over whole rows\<close>
  "unique xs = keep_first (\<lambda>x. x) [] xs"

section \<open>Reconciler (\<open>find_missing_uniprot_ids.py\<close>)\<close>





section \<open>Pair expander (\<open>explode_uniprot_ids.py\<close>)\<close>

record ('e, 'v) raw_row =
  raw_EC_number :: 'e
  raw_UniProt_IDs :: "'v option"

record 'e exploded_row =
  exploded_EC_number :: 'e
  exploded_UniProt_ID :: "string option"

definition fillna_empty :: "('v \<Rightarrow> string) \<Rightarrow> 'v option \<Rightarrow> string" where
  \<comment> \<open>one cell under \<open>fillna("").astype(str)\<close>\<close>
  "fillna_empty astype_str c = (case c of None \<Rightarrow> [] | Some v \<Rightarrow> astype_str v)"

definition split_ids :: "string \<Rightarrow> string list" where
  \<comment> \<open>\<open>[x for x in s.split(",") if x.strip()]\<close>\<close>
  "split_ids s = filter (\<lambda>x. strip x \<noteq> []) (split_on CHR '','' [] s)"

definition explode_row :: "('v \<Rightarrow> string) \<Rightarrow> ('e, 'v) raw_row \<Rightarrow> 'e exploded_row list" where
  \<comment> \<open>\<open>explode\<close> on one row: one row per list element, and a row with a missing value
      for an empty list\<close>
  "explode_row astype_str r =
     (case split_ids (fillna_empty astype_str (raw_UniProt_IDs r)) of
        [] \<Rightarrow> [\<lparr>exploded_EC_number = raw_EC_number r, exploded_UniProt_ID = None\<rparr>]
      | ts \<Rightarrow> map (\<lambda>t. \<lparr>exploded_EC_number = raw_EC_number r, exploded_UniProt_ID = Some t\<rparr>) ts)"

definition explode_uniprot_ids :: "('v \<Rightarrow> string) \<Rightarrow> ('e, 'v) raw_row list \<Rightarrow> 'e exploded_row list" where
  "explode_uniprot_ids astype_str df =
     (let exploded = concat (map (explode_row astype_str) df);
          exploded = filter (\<lambda>p. exploded_UniProt_ID p \<noteq> None \<and> exploded_UniProt_ID p \<noteq> Some [])
                       exploded
      in unique exploded)"

subsection \<open>Reference notions for the expander\<close>

definition claimed_pairs :: "('v \<Rightarrow> string) \<Rightarrow> ('e, 'v) raw_row list \<Rightarrow> 'e exploded_row list" where
  \<comment> \<open>the specification's wording: split at commas, drop the empty tokens, one pair per
      token left, without repetition\<close>
  "claimed_pairs astype_str df =
     unique (concat (map (\<lambda>r. map (\<lambda>t. \<lparr>exploded_EC_number = raw_EC_number r,
                                            exploded_UniProt_ID = Some t\<rparr>)
                                (filter (\<lambda>x. x \<noteq> [])
                                   (split_on CHR '','' [] (fillna_empty astype_str (raw_UniProt_IDs r)))))
                      df))"

section \<open>Merger (\<open>merge_enzyme_uniprot.py\<close>)\<close>



record sequence_row =
  UniProt_ID :: cell
  Sequence :: cell
  Length :: cell
  Organism :: cell
  Protein_name :: cell
  Gene_name :: cell











subsection \<open>Reference notions for the merger\<close>


section \<open>Batch fetcher (\<open>download_uniprot.py\<close>)\<close>

datatype outcome =
    RequestException
  | Response int string

text \<open>
  An \<open>outcome\<close> is what \<open>requests.get\<close> does: it raises, or it returns a response with a
  status code and a body.  The lookup service is a parameter of the model: the function from
  the query string to the outcome of the request.  \<open>pd.read_csv\<close> on the body is a parameter
  too; it returns a frame or raises.
\<close>

record frame =
  columns :: "string list"
  data :: "cell list list"

definition empty_frame :: frame where
  \<comment> \<open>\<open>pd.DataFrame()\<close>\<close>
  "empty_frame = \<lparr>columns = [], data = []\<rparr>"

definition is_empty :: "frame \<Rightarrow> bool" where
  \<comment> \<open>\<open>df.empty\<close>: some axis has length 0\<close>
  "is_empty df = (columns df = [] \<or> data df = [])"

definition chunk_list :: "'a list \<Rightarrow> int \<Rightarrow> py_error + 'a list list" where
  \<comment> \<open>\<open>[items[i:i + chunk_size] for i in range(0, len(items), chunk_size)]\<close>; \<open>range\<close>
      raises on step 0 and is empty for a negative step\<close>
  "chunk_list items chunk_size =
     (if chunk_size = 0 then Inl ValueError
      else if chunk_size < 0 then Inr []
      else
        let n = nat chunk_size
        in Inr (map (\<lambda>j. take n (drop (j * n) items)) [0..<(length items + n - 1) div n]))"

definition build_accession_query :: "string list \<Rightarrow> string" where
  "build_accession_query accessions = join '' OR '' (map (\<lambda>acc. ''accession:'' @ acc) accessions)"

definition rename_map :: "(string \<times> string) list" where
  "rename_map =
     [(''Entry'', ''UniProt_ID''),
      (''Accession'', ''UniProt_ID''),
      (''Organism'', ''Organism''),
      (''Organism (scientific name)'', ''Organism''),
      (''Organism [Organism]'', ''Organism''),
      (''Protein names'', ''Protein_name''),
      (''Protein name'', ''Protein_name''),
      (''Gene Names'', ''Gene_name''),
      (''Gene Names (primary)'', ''Gene_name''),
      (''Gene Names (primary name)'', ''Gene_name''),
      (''Sequence'', ''Sequence''),
      (''Length'', ''Length'')]"

definition expected :: "string list" where
  "expected =
     [''UniProt_ID'', ''Sequence'', ''Length'', ''Organism'', ''Protein_name'', ''Gene_name'']"

definition rename_column :: "frame \<Rightarrow> string \<times> string \<Rightarrow> frame" where
  \<comment> \<open>\<open>if old in df.columns: df.rename(columns={old: new}, inplace=True)\<close>\<close>
  "rename_column df on =
     (case on of (old, new) \<Rightarrow>
        if old \<in> set (columns df)
        then df\<lparr>columns := map (\<lambda>c. if c = old then new else c) (columns df)\<rparr>
        else df)"

definition add_missing :: "frame \<Rightarrow> string \<Rightarrow> frame" where
  \<comment> \<open>\<open>if col not in df.columns: df[col] = pd.NA\<close>\<close>
  "add_missing df col =
     (if col \<notin> set (columns df)
      then \<lparr>columns = columns df @ [col], data = map (\<lambda>row. row @ [None]) (data df)\<rparr>
      else df)"

definition cell_at :: "cell list \<Rightarrow> nat \<Rightarrow> cell" where
  "cell_at row i = (if i < length row then row ! i else None)"

definition positions_of :: "string list \<Rightarrow> string \<Rightarrow> nat list" where
  \<comment> \<open>every position that carries the label\<close>
  "positions_of cols label = filter (\<lambda>i. cols ! i = label) [0..<length cols]"

definition select_columns :: "frame \<Rightarrow> string list \<Rightarrow> frame" where
  \<comment> \<open>\<open>df[labels]\<close>: for each label in turn, every column that carries it\<close>
  "select_columns df labels =
     (let ps = concat (map (positions_of (columns df)) labels)
      in \<lparr>columns = map (\<lambda>i. columns df ! i) ps,
          data = map (\<lambda>row. map (cell_at row) ps) (data df)\<rparr>)"

definition normalize_columns :: "frame \<Rightarrow> frame" where
  \<comment> \<open>the part of \<open>fetch_uniprot_batch\<close> after \<open>read_csv\<close>\<close>
  "normalize_columns df =
     select_columns (foldl add_missing (foldl rename_column df rename_map) expected) expected"

definition fetch_uniprot_batch ::
  "(string \<Rightarrow> outcome) \<Rightarrow> (string \<Rightarrow> py_error + frame) \<Rightarrow> string list \<Rightarrow> py_error + frame" where
  "fetch_uniprot_batch get read_csv accessions =
     (if accessions = [] then Inr empty_frame
      else
        case get (build_accession_query accessions) of
          RequestException \<Rightarrow> Inr empty_frame
        | Response status_code body \<Rightarrow>
            if status_code \<noteq> 200 then Inr empty_frame
            else
              let text = strip body
              in if text = [] then Inr empty_frame
                 else (case read_csv text of
                         Inl e \<Rightarrow> Inl e
                       | Inr df \<Rightarrow> Inr (normalize_columns df)))"

fun fetch_chunks ::
  "(nat \<Rightarrow> string \<Rightarrow> outcome) \<Rightarrow> (string \<Rightarrow> py_error + frame) \<Rightarrow> (nat \<times> string list) list
     \<Rightarrow> frame list \<Rightarrow> py_error + frame list" where
  \<comment> \<open>the loop over \<open>enumerate(chunks, start=1)\<close>; \<open>service i\<close> is the \<open>i\<close>-th request made,
      the last argument is \<open>all_dfs\<close>\<close>
  "fetch_chunks service read_csv [] all_dfs = Inr all_dfs"
| "fetch_chunks service read_csv ((i, chunk) # rest) all_dfs =
     (case fetch_uniprot_batch (service i) read_csv chunk of
        Inl e \<Rightarrow> Inl e
      | Inr df_chunk \<Rightarrow>
          fetch_chunks service read_csv rest
            (if \<not> is_empty df_chunk then all_dfs @ [df_chunk] else all_dfs))"

definition concat_frames :: "frame list \<Rightarrow> py_error + frame" where
  \<comment> \<open>\<open>pd.concat(dfs, ignore_index=True)\<close>: frames with equal labels are stacked.  Frames
      leaving \<open>fetch_uniprot_batch\<close> differ in their labels only if one of them repeats a
      label; how pandas aligns or rejects those is not modelled\<close>
  "concat_frames dfs =
     (case dfs of
        [] \<Rightarrow> Inl ValueError
      | df # _ \<Rightarrow>
          if list_all (\<lambda>d. columns d = columns df) dfs
          then Inr \<lparr>columns = columns df, data = concat (map data dfs)\<rparr>
          else Inl Unaligned_labels)"

definition key_of :: "string list \<Rightarrow> string list \<Rightarrow> cell list \<Rightarrow> cell list" where
  \<comment> \<open>the cells of a row under the given labels\<close>
  "key_of labels cols row = map snd (filter (\<lambda>(c, v). c \<in> set labels) (zip cols row))"

definition drop_duplicates :: "string list \<Rightarrow> frame \<Rightarrow> frame" where
  \<comment> \<open>\<open>df.drop_duplicates(subset=...)\<close>\<close>
  "drop_duplicates labels df =
     df\<lparr>data := keep_first (key_of labels (columns df)) [] (data df)\<rparr>"

definition combine_chunks :: "frame list \<Rightarrow> py_error + frame option" where
  \<comment> \<open>the end of \<open>download_uniprot_batch\<close>: nothing is written when nothing was fetched,
      otherwise the deduplicated table\<close>
  "combine_chunks all_dfs =
     (if all_dfs = [] then Inr None
      else (case concat_frames all_dfs of
              Inl e \<Rightarrow> Inl e
            | Inr df \<Rightarrow> Inr (Some (drop_duplicates [''UniProt_ID''] df))))"

definition download_uniprot_batch ::
  "(nat \<Rightarrow> string \<Rightarrow> outcome) \<Rightarrow> (string \<Rightarrow> py_error + frame) \<Rightarrow> ('v :: linorder \<Rightarrow> string)
     \<Rightarrow> 'v option list \<Rightarrow> int \<Rightarrow> py_error + frame option" where
  \<comment> \<open>\<open>pairs_col\<close> is the \<open>UniProt_ID\<close> column of the pair table, sorted as values; the
      query renders each id of a chunk (\<open>f"accession:{acc}"\<close>), which \<open>astype_str\<close> does here
      before the chunk is handed on; the result is the table written, if any\<close>
  "download_uniprot_batch service read_csv astype_str pairs_col chunk_size =
     (let unique_ids = sort (unique (dropna pairs_col))
      in case chunk_list unique_ids chunk_size of
           Inl e \<Rightarrow> Inl e
         | Inr chunks \<Rightarrow>
             (case fetch_chunks service read_csv
                     (zip [1..<Suc (length chunks)] (map (map astype_str) chunks)) [] of
                Inl e \<Rightarrow> Inl e
              | Inr all_dfs \<Rightarrow> combine_chunks all_dfs))"

subsection \<open>Reference notions for the fetcher\<close>

definition chunk_failed :: "outcome \<Rightarrow> bool" where
  \<comment> \<open>a transport error, a non-success status, or a body that is blank\<close>
  "chunk_failed out =
     (case out of
        RequestException \<Rightarrow> True
      | Response status_code body \<Rightarrow> status_code \<noteq> 200 \<or> strip body = [])"

definition chunk_fails :: "(nat \<Rightarrow> string \<Rightarrow> outcome) \<Rightarrow> nat \<times> string list \<Rightarrow> bool" where
  \<comment> \<open>the request made for an enumerated chunk fails\<close>
  "chunk_fails service ic = (case ic of (i, chunk) \<Rightarrow> chunk_failed (service i (build_accession_query chunk)))"

definition canonical :: "string \<Rightarrow> string" where
  \<comment> \<open>the canonical name of a response label\<close>
  "canonical label = (case map_of rename_map label of None \<Rightarrow> label | Some new \<Rightarrow> new)"

definition column_of :: "frame \<Rightarrow> string \<Rightarrow> cell list option" where
  \<comment> \<open>the cells under the first column that carries the label\<close>
  "column_of df label =
     (case positions_of (columns df) label of
        [] \<Rightarrow> None
      | i # _ \<Rightarrow> Some (map (\<lambda>row. cell_at row i) (data df)))"

definition enumerated_chunks ::
  "('v :: linorder \<Rightarrow> string) \<Rightarrow> 'v option list \<Rightarrow> int \<Rightarrow> (nat \<times> string list) list" where
  \<comment> \<open>the chunks the download requests, numbered from 1, each id as the query writes it\<close>
  "enumerated_chunks astype_str pairs_col chunk_size =
     (case chunk_list (sort (unique (dropna pairs_col))) chunk_size of
        Inl e \<Rightarrow> []
      | Inr chunks \<Rightarrow> zip [1..<Suc (length chunks)] (map (map astype_str) chunks))"

definition response_well_labelled ::
  "(nat \<Rightarrow> string \<Rightarrow> outcome) \<Rightarrow> (string \<Rightarrow> py_error + frame) \<Rightarrow> nat \<times> string list \<Rightarrow> bool" where
  \<comment> \<open>the request for an enumerated chunk fails, or its body decodes to a table in which
      no two labels have the same canonical name\<close>
  "response_well_labelled service read_csv ic =
     (case ic of (i, chunk) \<Rightarrow>
        (case service i (build_accession_query chunk) of
           RequestException \<Rightarrow> True
         | Response status_code body \<Rightarrow>
             status_code \<noteq> 200 \<or> strip body = []
             \<or> (case read_csv (strip body) of
                   Inl e \<Rightarrow> False
                 | Inr df \<Rightarrow> distinct (map canonical (columns df)))))"

definition chunk_result ::
  "(nat \<Rightarrow> string \<Rightarrow> outcome) \<Rightarrow> (string \<Rightarrow> py_error + frame) \<Rightarrow> nat \<times> string list \<Rightarrow> py_error + frame" where
  \<comment> \<open>what \<open>fetch_uniprot_batch\<close> returns for an enumerated chunk\<close>
  "chunk_result service read_csv ic = (case ic of (i, chunk) \<Rightarrow> fetch_uniprot_batch (service i) read_csv chunk)"

definition fetched_tables ::
  "(nat \<Rightarrow> string \<Rightarrow> outcome) \<Rightarrow> (string \<Rightarrow> py_error + frame) \<Rightarrow> (nat \<times> string list) list
     \<Rightarrow> frame list" where
  \<comment> \<open>the tables, in chunk order, of the chunks whose request did not fail and whose table
      has entries\<close>
  "fetched_tables service read_csv ics =
     filter (\<lambda>df. \<not> is_empty df)
       (map (\<lambda>ic. projr (chunk_result service read_csv ic))
          (filter (\<lambda>ic. \<not> chunk_fails service ic) ics))"

section \<open>Properties of the record parser\<close>

subsection \<open>Entries and emitted rows\<close>

lemma ids_of_flush: "map EC_number (rows (flush_entry st)) = ids_of st"
  by (cases "cur_EC_number (current st)") (simp_all add: flush_entry_def ids_of_def row_of_def)

lemma ids_of_flush2: "ids_of (flush_entry st) = ids_of st"
  by (cases "cur_EC_number (current st)") (simp_all add: flush_entry_def ids_of_def row_of_def empty_entry_def)

lemma flush_entry_idem: "flush_entry (flush_entry st) = flush_entry st"
  by (simp add: flush_entry_def empty_entry_def)

lemma ids_of_process_line:
  "ids_of (process_line st raw) = ids_of st @ (case line_id raw of None \<Rightarrow> [] | Some i \<Rightarrow> [Some i])"
proof (cases "rstrip_newline raw = []")
  case True
  then show ?thesis by (simp add: process_line_def line_id_def)
next
  case False
  show ?thesis
  proof (cases "take 2 (rstrip_newline raw) = ''ID''")
    case True
    then show ?thesis using False
      by (cases "cur_EC_number (current st)")
         (auto simp add: process_line_def line_id_def Let_def flush_entry_def ids_of_def row_of_def empty_entry_def split: list.splits)
  next
    case notID: False
    have "ids_of (process_line st raw) = ids_of st"
      using False notID
      by (auto simp add: process_line_def Let_def ids_of_flush2) (simp_all add: ids_of_def)
    then show ?thesis using notID by (simp add: line_id_def)
  qed
qed

lemma ids_of_foldl:
  "ids_of (foldl process_line st ls) = ids_of st @ map Some (entry_ids ls)"
proof (induction ls arbitrary: st)
  case Nil
  then show ?case by (simp add: entry_ids_def List.map_filter_simps)
next
  case (Cons l ls)
  then show ?case
    by (cases "line_id l") (simp_all add: ids_of_process_line entry_ids_def List.map_filter_simps)
qed

lemma process_line_terminator: "process_line st ''//'' = flush_entry st"
  by (simp add: process_line_def rstrip_newline_def)

text \<open>
  Claim C1.  For every sequence of lines, the rows emitted carry, in order, exactly the ids
  of the \<open>ID\<close> lines that have one: one row per classification entry, whether the entry
  is closed by \<open>//\<close>, by the next \<open>ID\<close> line or by the end of the input, and none for an
  entry without id.  No emitted row has a null id, and a trailing \<open>//\<close> changes nothing:
  the last entry is flushed without it.
\<close>

theorem parse_emits_one_row_per_entry:
  "map EC_number (parse_enzyme_dat ls) = map Some (entry_ids ls)
   \<and> (\<forall>r \<in> set (parse_enzyme_dat ls). EC_number r \<noteq> None)
   \<and> parse_enzyme_dat (ls @ [''//'']) = parse_enzyme_dat ls"
proof -
  have a: "map EC_number (parse_enzyme_dat ls) = map Some (entry_ids ls)"
    by (simp add: parse_enzyme_dat_def ids_of_flush ids_of_foldl) (simp add: ids_of_def initial_state_def empty_entry_def)
  have "None \<notin> set (map EC_number (parse_enzyme_dat ls))"
    unfolding a by auto
  then have b: "\<forall>r \<in> set (parse_enzyme_dat ls). EC_number r \<noteq> None"
    by (metis image_eqI list.set_map)
  have c: "parse_enzyme_dat (ls @ [''//'']) = parse_enzyme_dat ls"
    by (simp add: parse_enzyme_dat_def process_line_terminator flush_entry_idem)
  from a b c show ?thesis by blast
qed

theorem parse_emits_one_row_per_entry_witness:
  "map EC_number (parse_enzyme_dat [''ID   1.1.1.1'', ''DE   alcohol dehydrogenase.'', ''//'', ''CC   note'', ''ID   1.1.1.2'', ''DR   P00330, ADH1_YEAST ;''])
     = [Some ''1.1.1.1'', Some ''1.1.1.2'']
   \<and> list_all (\<lambda>r. EC_number r \<noteq> None) (parse_enzyme_dat [''ID   1.1.1.1'', ''DE   alcohol dehydrogenase.'', ''//'', ''CC   note'', ''ID   1.1.1.2'', ''DR   P00330, ADH1_YEAST ;''])
   \<and> parse_enzyme_dat ([''ID   1.1.1.1'', ''DE   alcohol dehydrogenase.'', ''//'', ''CC   note'', ''ID   1.1.1.2'', ''DR   P00330, ADH1_YEAST ;''] @ [''//'']) = parse_enzyme_dat [''ID   1.1.1.1'', ''DE   alcohol dehydrogenase.'', ''//'', ''CC   note'', ''ID   1.1.1.2'', ''DR   P00330, ADH1_YEAST ;'']"
proof -
  have e: "entry_ids [''ID   1.1.1.1'', ''DE   alcohol dehydrogenase.'', ''//'', ''CC   note'', ''ID   1.1.1.2'', ''DR   P00330, ADH1_YEAST ;''] = [''1.1.1.1'', ''1.1.1.2'']"
    by code_simp
  show ?thesis
    using parse_emits_one_row_per_entry [of "[''ID   1.1.1.1'', ''DE   alcohol dehydrogenase.'', ''//'', ''CC   note'', ''ID   1.1.1.2'', ''DR   P00330, ADH1_YEAST ;'']"]
    unfolding e by (simp add: list_all_iff)
qed

subsection \<open>Accessions of a \<open>DR\<close> line\<close>

lemma in_class_is_word: "in_class c \<Longrightarrow> is_word c"
  by (auto simp add: in_class_def is_word_def isalnum_def Let_def)

lemma in_class_nth:
  assumes "list_all in_class (take 6 (drop k s))" "k + 6 \<le> length s" "n < 6"
  shows "in_class (s ! (k + n))"
proof -
  have "in_class (take 6 (drop k s) ! n)"
    using assms by (simp add: list_all_length)
  then show ?thesis using assms by simp
qed

lemma match_here_token_at:
  assumes "k < length s"
  shows "match_here (if k = 0 then None else Some (s ! (k - 1))) (drop k s) = token_at is_word s k"
proof (cases "k + 6 \<le> length s \<and> list_all in_class (take 6 (drop k s))")
  case False
  then show ?thesis
    by (auto simp add: match_here_def token_at_def)
next
  case True
  then have len: "k + 6 \<le> length s" and cls: "list_all in_class (take 6 (drop k s))" by auto
  have w0: "is_word (s ! k)"
    using in_class_nth [OF cls len, of 0] by (simp add: in_class_is_word)
  have w5: "is_word (s ! (k + 5))"
    using in_class_nth [OF cls len, of 5] by (simp add: in_class_is_word)
  have c0: "char_at (drop k s) 0 = Some (s ! k)" and c5: "char_at (drop k s) 5 = Some (s ! (k + 5))"
    using len by (simp_all add: char_at_def)
  have c6: "char_at (drop k s) 6 = (if k + 6 = length s then None else Some (s ! (k + 6)))"
    using len by (auto simp add: char_at_def)
  show ?thesis
    using len cls w0 w5 by (auto simp add: match_here_def token_at_def c0 c5 c6 word_boundary_def)
qed

lemma no_token_inside:
  assumes "token_at is_word s k" "k < i" "i < k + 6"
  shows "\<not> token_at is_word s i"
proof -
  from assms have len: "k + 6 \<le> length s" and cls: "list_all in_class (take 6 (drop k s))"
    by (simp_all add: token_at_def)
  have "i - 1 - k < 6" using assms by arith
  then have "in_class (s ! (k + (i - 1 - k)))"
    by (rule in_class_nth [OF cls len])
  moreover have "k + (i - 1 - k) = i - 1" using assms by arith
  ultimately have "in_class (s ! (i - 1))" by simp
  then have "is_word (s ! (i - 1))" by (rule in_class_is_word)
  then show ?thesis using assms by (simp add: token_at_def)
qed

lemma findall_from_tokens:
  "k \<le> length s \<Longrightarrow>
   findall_from (if k = 0 then None else Some (s ! (k - 1))) (drop k s)
     = map (\<lambda>i. take 6 (drop i s)) (filter (token_at is_word s) [k..<length s])"
proof (induction "length s - k" arbitrary: k rule: less_induct)
  case less
  show ?case
  proof (cases "k = length s")
    case True
    then show ?thesis by simp
  next
    case False
    with less.prems have lt: "k < length s" by simp
    then have dk: "drop k s = s ! k # drop (Suc k) s"
      by (simp add: Cons_nth_drop_Suc)
    show ?thesis
    proof (cases "token_at is_word s k")
      case True
      then have len: "k + 6 \<le> length s" by (simp add: token_at_def)
      have m: "match_here (if k = 0 then None else Some (s ! (k - 1))) (s ! k # drop (Suc k) s)"
        using match_here_token_at [OF lt] True dk by simp
      have c5: "char_at (s ! k # drop (Suc k) s) 5 = Some (s ! (k + 5))"
      proof -
        have "char_at (drop k s) 5 = Some (s ! (k + 5))"
          using len by (simp add: char_at_def)
        then show ?thesis by (simp only: dk)
      qed
      have split: "[k..<length s] = k # [Suc k..<k + 6] @ [k + 6..<length s]"
      proof -
        have "[k..<length s] = [k..<k + 6] @ [k + 6..<length s]"
          using len upt_add_eq_append [of k "k + 6" "length s - (k + 6)"] by simp
        moreover have "[k..<k + 6] = k # [Suc k..<k + 6]"
          by (simp add: upt_conv_Cons)
        ultimately show ?thesis by simp
      qed
      have inner: "filter (token_at is_word s) [Suc k..<k + 6] = []"
        using no_token_inside [OF True] by (auto simp add: filter_empty_conv)
      have ih: "findall_from (Some (s ! (k + 5))) (drop (k + 6) s)
          = map (\<lambda>i. take 6 (drop i s)) (filter (token_at is_word s) [k + 6..<length s])"
      proof -
        have "length s - (k + 6) < length s - k" using lt by arith
        from less.hyps [OF this] len show ?thesis by (simp add: add.commute)
      qed
      have "findall_from (if k = 0 then None else Some (s ! (k - 1))) (drop k s)
          = take 6 (drop k s) # findall_from (Some (s ! (k + 5))) (drop (k + 6) s)"
      proof -
        have d6: "drop 6 (s ! k # drop (Suc k) s) = drop (k + 6) s"
          using dk by (metis add.commute drop_drop)
        show ?thesis
          by (simp only: dk findall_from.simps m if_True c5 d6)
      qed
      then show ?thesis using True by (simp add: split inner ih)
    next
      case nt: False
      then have m: "\<not> match_here (if k = 0 then None else Some (s ! (k - 1))) (s ! k # drop (Suc k) s)"
        using match_here_token_at [OF lt] dk by simp
      have ih: "findall_from (Some (s ! k)) (drop (Suc k) s)
          = map (\<lambda>i. take 6 (drop i s)) (filter (token_at is_word s) [Suc k..<length s])"
        using less.hyps [of "Suc k"] lt by simp
      have "findall_from (if k = 0 then None else Some (s ! (k - 1))) (drop k s)
          = findall_from (Some (s ! k)) (drop (Suc k) s)"
        by (simp only: dk findall_from.simps m if_False)
      then show ?thesis using nt lt by (simp add: ih upt_conv_Cons)
    qed
  qed
qed

lemma findall_tokens: "findall s = tokens_bounded_by is_word s"
  using findall_from_tokens [of 0 s] by (simp add: findall_def tokens_bounded_by_def)

text \<open>
  Claim C2, as amended.  A \<open>DR\<close> line appends to the accessions of the current record
  exactly the runs of six characters of \<open>[A-Z0-9]\<close> in its content that stand between
  regular-expression word boundaries, that is, whose neighbours (where there are any) are
  neither alphanumeric nor an underscore, in order of appearance and without the tokens
  that start with \<open>PS\<close>.
\<close>

theorem dr_line_appends_word_bounded_tokens:
  assumes "take 2 (rstrip_newline raw) = ''DR''"
  shows "cur_UniProt_IDs (current (process_line st raw))
     = cur_UniProt_IDs (current st)
       @ filter (\<lambda>acc. \<not> startswith acc ''PS'')
           (tokens_bounded_by is_word (strip (drop 5 (rstrip_newline raw))))"
proof -
  have "rstrip_newline raw \<noteq> []" using assms by auto
  then show ?thesis
    using assms by (simp add: process_line_def Let_def dr_accessions_def findall_tokens)
qed

theorem dr_line_appends_word_bounded_tokens_witness:
  "take 2 (rstrip_newline ''DR   P00330, ADH1_YEAST ;  PS0001, Q9XYZ1_HUMAN ;'') = ''DR''
   \<and> cur_UniProt_IDs (current (process_line initial_state ''DR   P00330, ADH1_YEAST ;  PS0001, Q9XYZ1_HUMAN ;''))
     = [''P00330'']
   \<and> filter (\<lambda>acc. \<not> startswith acc ''PS'')
        (tokens_bounded_by is_word (strip (drop 5 (rstrip_newline ''DR   P00330, ADH1_YEAST ;  PS0001, Q9XYZ1_HUMAN ;''))))
     = [''P00330'']"
proof -
  have h: "take 2 (rstrip_newline ''DR   P00330, ADH1_YEAST ;  PS0001, Q9XYZ1_HUMAN ;'') = ''DR''"
    by code_simp
  have c: "cur_UniProt_IDs (current (process_line initial_state ''DR   P00330, ADH1_YEAST ;  PS0001, Q9XYZ1_HUMAN ;''))
     = [''P00330'']"
    by code_simp
  have i: "cur_UniProt_IDs (current initial_state) = []"
    by (simp add: initial_state_def empty_entry_def)
  from dr_line_appends_word_bounded_tokens [OF h, of initial_state] c i h show ?thesis
    by simp
qed

text \<open>
  Claim C2 as stated speaks of non-alphanumeric boundaries.  An underscore is not
  alphanumeric, so the run \<open>Q9XYZ1\<close> in \<open>Q9XYZ1_HUMAN\<close> would be an accession; the
  expression's \<open>\b\<close> does not hold between \<open>1\<close> and \<open>_\<close>, and the code extracts nothing.
\<close>

theorem dr_accessions_underscore_counterexample:
  "parse_enzyme_dat [''ID   1.1.1.1'', ''DR   Q9XYZ1_HUMAN ;'', ''//'']
     = [\<lparr>EC_number = Some ''1.1.1.1'', Enzyme_name = None, Alt_names = None, Reaction = None,
         Prosite_refs = None, UniProt_IDs = None\<rparr>]
   \<and> dr_accessions ''Q9XYZ1_HUMAN ;'' = []
   \<and> claimed_accessions ''Q9XYZ1_HUMAN ;'' = [''Q9XYZ1'']"
  by code_simp

subsection \<open>What a flush emits\<close>

text \<open>
  Claim C4 at the input \<open>ID\<close>, \<open>DE   orphan\<close>, \<open>//\<close>, \<open>ID   1.1.1.1\<close>, \<open>//\<close>.  The first
  entry has no id and is discarded, but \<open>flush_entry\<close> returns before its reset and the
  \<open>ID\<close> branch does not start a new accumulator, so the name collected for the discarded
  entry is emitted as the name of entry \<open>1.1.1.1\<close>.
\<close>

theorem idless_content_leaks_into_next_record:
  "parse_enzyme_dat [''ID'', ''DE   orphan'', ''//'', ''ID   1.1.1.1'', ''//'']
     = [\<lparr>EC_number = Some ''1.1.1.1'', Enzyme_name = Some ''orphan'', Alt_names = None,
         Reaction = None, Prosite_refs = None, UniProt_IDs = None\<rparr>]"
  by code_simp

text \<open>
  Claim C5, as amended.  Flushing an accumulator that has an id appends exactly one row and
  resets the accumulator.  The row's name, alternative names and reaction are the lists
  joined by single spaces, its cross-references the list joined by \<open>"; "\<close>, its accession
  field the accession list as accumulated, duplicates included, joined by commas; each
  field is null when the joined string is empty.  With no accessions the row is still
  emitted, its accession field null.
\<close>

theorem flush_entry_row:
  assumes "cur_EC_number e = Some i"
  shows "flush_entry \<lparr>current = e, rows = rs\<rparr>
     = \<lparr>current = empty_entry,
        rows = rs @ [\<lparr>EC_number = Some i,
                      Enzyme_name = or_None (join '' '' (cur_Enzyme_name e)),
                      Alt_names = or_None (join '' '' (cur_Alt_names e)),
                      Reaction = or_None (join '' '' (cur_Reaction e)),
                      Prosite_refs = or_None (join ''; '' (cur_Prosite_refs e)),
                      UniProt_IDs = or_None (join '','' (cur_UniProt_IDs e))\<rparr>]\<rparr>
     \<and> (cur_UniProt_IDs e = [] \<longrightarrow> UniProt_IDs (last (rows (flush_entry \<lparr>current = e, rows = rs\<rparr>))) = None)"
  using assms by (simp add: flush_entry_def row_of_def or_None_def)

theorem flush_entry_row_witness:
  "flush_entry \<lparr>current = \<lparr>cur_EC_number = Some ''1.1.1.1'', cur_Enzyme_name = [''alcohol'', ''dehydrogenase.''],
        cur_Alt_names = [], cur_Reaction = [], cur_Prosite_refs = [''PROSITE; PDOC00058'', ''PROSITE; PDOC00059''], cur_UniProt_IDs = []\<rparr>, rows = []\<rparr>
     = \<lparr>current = empty_entry,
        rows = [\<lparr>EC_number = Some ''1.1.1.1'', Enzyme_name = Some ''alcohol dehydrogenase.'',
                 Alt_names = None, Reaction = None, Prosite_refs = Some ''PROSITE; PDOC00058; PROSITE; PDOC00059'', UniProt_IDs = None\<rparr>]\<rparr>"
  using flush_entry_row [of "\<lparr>cur_EC_number = Some ''1.1.1.1'', cur_Enzyme_name = [''alcohol'', ''dehydrogenase.''],
        cur_Alt_names = [], cur_Reaction = [], cur_Prosite_refs = [''PROSITE; PDOC00058'', ''PROSITE; PDOC00059''], cur_UniProt_IDs = []\<rparr>" "''1.1.1.1''" "[]"]
  by (simp add: or_None_def)

text \<open>
  Claim C5 as stated has the accession field deduplicated and a field null only for an
  empty list.  For the lines \<open>ID   1.1.1.1\<close>, \<open>DE\<close>,
  \<open>DR   P00330, ADH1_YEAST ;  P00330, ADH1_YEAST ;\<close>, \<open>//\<close> the accumulator holds the name
  list \<open>[""]\<close> and the accession \<open>P00330\<close> twice; the code emits a null name and the
  accession field \<open>P00330,P00330\<close>, where the claim has the name \<open>""\<close> and \<open>P00330\<close>.
\<close>

theorem flush_row_counterexample:
  "parse_enzyme_dat [''ID   1.1.1.1'', ''DE'', ''DR   P00330, ADH1_YEAST ;  P00330, ADH1_YEAST ;'', ''//'']
     = [\<lparr>EC_number = Some ''1.1.1.1'', Enzyme_name = None, Alt_names = None, Reaction = None,
         Prosite_refs = None, UniProt_IDs = Some ''P00330,P00330''\<rparr>]
   \<and> foldl process_line initial_state [''ID   1.1.1.1'', ''DE'', ''DR   P00330, ADH1_YEAST ;  P00330, ADH1_YEAST ;'']
     = \<lparr>current = \<lparr>cur_EC_number = Some ''1.1.1.1'', cur_Enzyme_name = [''''], cur_Alt_names = [],
          cur_Reaction = [], cur_Prosite_refs = [], cur_UniProt_IDs = [''P00330'', ''P00330'']\<rparr>, rows = []\<rparr>
   \<and> claimed_row \<lparr>cur_EC_number = Some ''1.1.1.1'', cur_Enzyme_name = [''''], cur_Alt_names = [],
          cur_Reaction = [], cur_Prosite_refs = [], cur_UniProt_IDs = [''P00330'', ''P00330'']\<rparr>
     = \<lparr>EC_number = Some ''1.1.1.1'', Enzyme_name = Some '''', Alt_names = None, Reaction = None,
         Prosite_refs = None, UniProt_IDs = Some ''P00330''\<rparr>"
  by code_simp

section \<open>Properties of the tables\<close>

lemma keep_first_subset: "set (keep_first key seen xs) \<subseteq> set xs"
  by (induction xs arbitrary: seen) auto

lemma keep_first_keys:
  "key ` set (keep_first key seen xs) = key ` set xs - set seen"
  by (induction xs arbitrary: seen) auto

lemma keep_first_distinct: "distinct (map key (keep_first key seen xs))"
proof (induction xs arbitrary: seen)
  case Nil
  then show ?case by simp
next
  case (Cons x xs)
  have "key x \<notin> key ` set (keep_first key (key x # seen) xs)"
    by (simp add: keep_first_keys)
  with Cons show ?case by simp
qed

lemma keep_first_is_first:
  "r \<in> set (keep_first key seen xs) \<Longrightarrow> find (\<lambda>x. key x = key r) xs = Some r"
proof (induction xs arbitrary: seen)
  case Nil
  then show ?case by simp
next
  case (Cons x xs)
  show ?case
  proof (cases "key x \<in> set seen")
    case True
    with Cons.prems have r: "r \<in> set (keep_first key seen xs)" by simp
    then have "key r \<in> key ` set xs - set seen"
      using keep_first_keys [of key seen xs] by blast
    with True have "key x \<noteq> key r" by auto
    with Cons.IH [OF r] show ?thesis by simp
  next
    case False
    with Cons.prems have "r = x \<or> r \<in> set (keep_first key (key x # seen) xs)" by simp
    then show ?thesis
    proof
      assume "r = x"
      then show ?thesis by simp
    next
      assume r: "r \<in> set (keep_first key (key x # seen) xs)"
      then have "key r \<in> key ` set xs - set (key x # seen)"
        using keep_first_keys [of key "key x # seen" xs] by blast
      then have "key x \<noteq> key r" by auto
      with Cons.IH [OF r] show ?thesis by simp
    qed
  qed
qed

lemma set_unique: "set (unique xs) = set xs"
  using keep_first_keys [of "\<lambda>x. x" "[]" xs] by (simp add: unique_def)

lemma distinct_unique: "distinct (unique xs)"
  using keep_first_distinct [of "\<lambda>x. x" "[]" xs] by (simp add: unique_def)


section \<open>Properties of the reconciler\<close>








section \<open>Properties of the pair expander\<close>

text \<open>
  Splitting at a separator is the inverse of joining with it, and no token contains the
  separator.
\<close>

lemma join_Cons: "join sep (x # xs) = (if xs = [] then x else x @ sep @ join sep xs)"
  by (cases xs) simp_all

lemma split_on_nonempty: "split_on sep w s \<noteq> []"
  by (induction s arbitrary: w) auto

lemma join_split_on: "join [sep] (split_on sep w s) = w @ s"
  by (induction s arbitrary: w) (auto simp add: join_Cons split_on_nonempty)

lemma split_on_no_sep:
  "sep \<notin> set w \<Longrightarrow> t \<in> set (split_on sep w s) \<Longrightarrow> sep \<notin> set t"
proof (induction s arbitrary: w)
  case Nil
  then show ?case by simp
next
  case (Cons c s)
  show ?case
  proof (cases "c = sep")
    case True
    with Cons.prems have "t = w \<or> t \<in> set (split_on sep [] s)" by simp
    then show ?thesis using Cons.prems(1) Cons.IH [of "[]"] by auto
  next
    case False
    with Cons.prems have "t \<in> set (split_on sep (w @ [c]) s)" by simp
    moreover have "sep \<notin> set (w @ [c])" using False Cons.prems(1) by simp
    ultimately show ?thesis using Cons.IH by blast
  qed
qed

lemma strip_Nil: "strip [] = []"
  by (simp add: strip_def)

lemma set_explode_row:
  "{p \<in> set (explode_row astype_str r). exploded_UniProt_ID p \<noteq> None \<and> exploded_UniProt_ID p \<noteq> Some []}
     = {\<lparr>exploded_EC_number = raw_EC_number r, exploded_UniProt_ID = Some t\<rparr> | t.
          t \<in> set (split_on CHR '','' [] (fillna_empty astype_str (raw_UniProt_IDs r))) \<and> strip t \<noteq> []}"
proof (cases "split_ids (fillna_empty astype_str (raw_UniProt_IDs r))")
  case Nil
  then have "\<And>t. t \<in> set (split_on CHR '','' [] (fillna_empty astype_str (raw_UniProt_IDs r))) \<Longrightarrow> strip t = []"
    by (auto simp add: split_ids_def filter_empty_conv)
  then show ?thesis using Nil by (auto simp add: explode_row_def)
next
  case (Cons a list)
  let ?mk = "\<lambda>t. \<lparr>exploded_EC_number = raw_EC_number r, exploded_UniProt_ID = Some t\<rparr>"
  let ?toks = "split_on CHR '','' [] (fillna_empty astype_str (raw_UniProt_IDs r))"
  have e: "explode_row astype_str r = map ?mk (split_ids (fillna_empty astype_str (raw_UniProt_IDs r)))"
    using Cons by (simp add: explode_row_def)
  have t: "set (split_ids (fillna_empty astype_str (raw_UniProt_IDs r))) = {t \<in> set ?toks. strip t \<noteq> []}"
    by (simp add: split_ids_def)
  have ne: "\<And>t. strip t \<noteq> [] \<Longrightarrow> t \<noteq> []"
    using strip_Nil by auto
  show ?thesis
  proof (intro set_eqI iffI)
    fix p
    assume "p \<in> {p \<in> set (explode_row astype_str r). exploded_UniProt_ID p \<noteq> None \<and> exploded_UniProt_ID p \<noteq> Some []}"
    then obtain t where "p = ?mk t" "t \<in> set ?toks" "strip t \<noteq> []"
      unfolding e using t by auto
    then show "p \<in> {?mk t | t. t \<in> set ?toks \<and> strip t \<noteq> []}" by blast
  next
    fix p
    assume "p \<in> {?mk t | t. t \<in> set ?toks \<and> strip t \<noteq> []}"
    then obtain t where p: "p = ?mk t" and tt: "t \<in> set ?toks" "strip t \<noteq> []" by blast
    then have "t \<in> set (split_ids (fillna_empty astype_str (raw_UniProt_IDs r)))" using t by simp
    then have "p \<in> set (explode_row astype_str r)" unfolding e p by simp
    moreover have "exploded_UniProt_ID p \<noteq> None \<and> exploded_UniProt_ID p \<noteq> Some []"
      using p ne [OF tt(2)] by simp
    ultimately show "p \<in> {p \<in> set (explode_row astype_str r). exploded_UniProt_ID p \<noteq> None \<and> exploded_UniProt_ID p \<noteq> Some []}"
      by simp
  qed
qed

text \<open>
  Claim C8.  The field split is the rendering of the record's accession field under
  \<open>fillna("").astype(str)\<close>.  The pairs emitted are exactly the pairs of a record's id with a
  token of that string, split at commas, that is not blank: an empty token and a token of
  whitespace alone are dropped, a surviving token is kept as it stands.  A missing or empty
  field and the empty tokens around leading, trailing or doubled commas contribute nothing;
  no pair occurs twice.
\<close>

theorem explode_emits_distinct_pairs:
  "distinct (explode_uniprot_ids astype_str df)
   \<and> set (explode_uniprot_ids astype_str df)
       = {\<lparr>exploded_EC_number = raw_EC_number r, exploded_UniProt_ID = Some t\<rparr> | r t.
            r \<in> set df \<and> t \<in> set (split_on CHR '','' [] (fillna_empty astype_str (raw_UniProt_IDs r)))
            \<and> strip t \<noteq> []}
   \<and> list_all (\<lambda>p. exploded_UniProt_ID p \<noteq> None \<and> exploded_UniProt_ID p \<noteq> Some []) (explode_uniprot_ids astype_str df)"
proof -
  let ?keep = "\<lambda>p. exploded_UniProt_ID p \<noteq> None \<and> exploded_UniProt_ID p \<noteq> Some []"
  have s: "set (explode_uniprot_ids astype_str df) = (\<Union>r \<in> set df. {p \<in> set (explode_row astype_str r). ?keep p})"
    by (auto simp add: explode_uniprot_ids_def Let_def set_unique)
  have a: "distinct (explode_uniprot_ids astype_str df)"
    by (simp add: explode_uniprot_ids_def Let_def distinct_unique)
  have b: "set (explode_uniprot_ids astype_str df)
       = {\<lparr>exploded_EC_number = raw_EC_number r, exploded_UniProt_ID = Some t\<rparr> | r t.
            r \<in> set df \<and> t \<in> set (split_on CHR '','' [] (fillna_empty astype_str (raw_UniProt_IDs r)))
            \<and> strip t \<noteq> []}"
    unfolding s set_explode_row by blast
  have c: "list_all ?keep (explode_uniprot_ids astype_str df)"
    unfolding list_all_iff s by blast
  from a b c show ?thesis by blast
qed

text \<open>
  The theorem at a table with a text column (values tagged \<open>Inl\<close>) and at a table whose
  accession column holds digits and a missing cell, a float column (values tagged \<open>Inr\<close>),
  where \<open>123456\<close> renders as \<open>123456.0\<close>.
\<close>

theorem explode_emits_distinct_pairs_witness:
  "explode_uniprot_ids (case_sum (\<lambda>s. s) (\<lambda>d. d @ ''.0''))
     [\<lparr>raw_EC_number = ''1.1.1.1'', raw_UniProt_IDs = Some (Inl '',P00330,,P00331,P00330,'')\<rparr>,
      \<lparr>raw_EC_number = ''1.1.1.2'', raw_UniProt_IDs = None\<rparr>,
      \<lparr>raw_EC_number = ''1.1.1.1'', raw_UniProt_IDs = Some (Inl ''P00331, ,Q00001'')\<rparr>]
     = [\<lparr>exploded_EC_number = ''1.1.1.1'', exploded_UniProt_ID = Some ''P00330''\<rparr>,
        \<lparr>exploded_EC_number = ''1.1.1.1'', exploded_UniProt_ID = Some ''P00331''\<rparr>,
        \<lparr>exploded_EC_number = ''1.1.1.1'', exploded_UniProt_ID = Some ''Q00001''\<rparr>]
   \<and> distinct (explode_uniprot_ids (case_sum (\<lambda>s. s) (\<lambda>d. d @ ''.0''))
     [\<lparr>raw_EC_number = ''1.1.1.1'', raw_UniProt_IDs = Some (Inl '',P00330,,P00331,P00330,'')\<rparr>,
      \<lparr>raw_EC_number = ''1.1.1.2'', raw_UniProt_IDs = None\<rparr>,
      \<lparr>raw_EC_number = ''1.1.1.1'', raw_UniProt_IDs = Some (Inl ''P00331, ,Q00001'')\<rparr>])
   \<and> explode_uniprot_ids (case_sum (\<lambda>s. s) (\<lambda>d. d @ ''.0''))
     [\<lparr>raw_EC_number = ''1.1.1.3'', raw_UniProt_IDs = Some (Inr ''123456'')\<rparr>,
      \<lparr>raw_EC_number = ''1.1.1.4'', raw_UniProt_IDs = None\<rparr>]
     = [\<lparr>exploded_EC_number = ''1.1.1.3'', exploded_UniProt_ID = Some ''123456.0''\<rparr>]
   \<and> distinct (explode_uniprot_ids (case_sum (\<lambda>s. s) (\<lambda>d. d @ ''.0''))
     [\<lparr>raw_EC_number = ''1.1.1.3'', raw_UniProt_IDs = Some (Inr ''123456'')\<rparr>,
      \<lparr>raw_EC_number = ''1.1.1.4'', raw_UniProt_IDs = None\<rparr>])"
proof -
  have a: "explode_uniprot_ids (case_sum (\<lambda>s. s) (\<lambda>d. d @ ''.0''))
     [\<lparr>raw_EC_number = ''1.1.1.1'', raw_UniProt_IDs = Some (Inl '',P00330,,P00331,P00330,'')\<rparr>,
      \<lparr>raw_EC_number = ''1.1.1.2'', raw_UniProt_IDs = None\<rparr>,
      \<lparr>raw_EC_number = ''1.1.1.1'', raw_UniProt_IDs = Some (Inl ''P00331, ,Q00001'')\<rparr>]
     = [\<lparr>exploded_EC_number = ''1.1.1.1'', exploded_UniProt_ID = Some ''P00330''\<rparr>,
        \<lparr>exploded_EC_number = ''1.1.1.1'', exploded_UniProt_ID = Some ''P00331''\<rparr>,
        \<lparr>exploded_EC_number = ''1.1.1.1'', exploded_UniProt_ID = Some ''Q00001''\<rparr>]"
    by code_simp
  have b: "explode_uniprot_ids (case_sum (\<lambda>s. s) (\<lambda>d. d @ ''.0''))
     [\<lparr>raw_EC_number = ''1.1.1.3'', raw_UniProt_IDs = Some (Inr ''123456'')\<rparr>,
      \<lparr>raw_EC_number = ''1.1.1.4'', raw_UniProt_IDs = None\<rparr>]
     = [\<lparr>exploded_EC_number = ''1.1.1.3'', exploded_UniProt_ID = Some ''123456.0''\<rparr>]"
    by code_simp
  have c: "distinct (explode_uniprot_ids (case_sum (\<lambda>s. s) (\<lambda>d. d @ ''.0''))
     [\<lparr>raw_EC_number = ''1.1.1.1'', raw_UniProt_IDs = Some (Inl '',P00330,,P00331,P00330,'')\<rparr>,
      \<lparr>raw_EC_number = ''1.1.1.2'', raw_UniProt_IDs = None\<rparr>,
      \<lparr>raw_EC_number = ''1.1.1.1'', raw_UniProt_IDs = Some (Inl ''P00331, ,Q00001'')\<rparr>])"
    using explode_emits_distinct_pairs
      [of "(case_sum (\<lambda>s. s) (\<lambda>d. d @ ''.0''))"
          "[\<lparr>raw_EC_number = ''1.1.1.1'', raw_UniProt_IDs = Some (Inl '',P00330,,P00331,P00330,'')\<rparr>,
      \<lparr>raw_EC_number = ''1.1.1.2'', raw_UniProt_IDs = None\<rparr>,
      \<lparr>raw_EC_number = ''1.1.1.1'', raw_UniProt_IDs = Some (Inl ''P00331, ,Q00001'')\<rparr>]"]
    by (rule conjunct1)
  have d: "distinct (explode_uniprot_ids (case_sum (\<lambda>s. s) (\<lambda>d. d @ ''.0''))
     [\<lparr>raw_EC_number = ''1.1.1.3'', raw_UniProt_IDs = Some (Inr ''123456'')\<rparr>,
      \<lparr>raw_EC_number = ''1.1.1.4'', raw_UniProt_IDs = None\<rparr>])"
    using explode_emits_distinct_pairs
      [of "(case_sum (\<lambda>s. s) (\<lambda>d. d @ ''.0''))"
          "[\<lparr>raw_EC_number = ''1.1.1.3'', raw_UniProt_IDs = Some (Inr ''123456'')\<rparr>,
      \<lparr>raw_EC_number = ''1.1.1.4'', raw_UniProt_IDs = None\<rparr>]"]
    by (rule conjunct1)
  from a c b d show ?thesis by (intro conjI)
qed

text \<open>
  Claim C8 as stated drops the empty tokens only.  The field \<open>P00330, ,P00331\<close> has three
  tokens, none of them empty; the code drops the middle one, a blank, and emits two pairs
  where the claim has three.
\<close>

theorem explode_blank_token_counterexample:
  "explode_uniprot_ids (\<lambda>v. v)
     [\<lparr>raw_EC_number = ''1.1.1.1'', raw_UniProt_IDs = Some ''P00330, ,P00331''\<rparr>]
     = [\<lparr>exploded_EC_number = ''1.1.1.1'', exploded_UniProt_ID = Some ''P00330''\<rparr>,
        \<lparr>exploded_EC_number = ''1.1.1.1'', exploded_UniProt_ID = Some ''P00331''\<rparr>]
   \<and> claimed_pairs (\<lambda>v. v)
     [\<lparr>raw_EC_number = ''1.1.1.1'', raw_UniProt_IDs = Some ''P00330, ,P00331''\<rparr>]
     = [\<lparr>exploded_EC_number = ''1.1.1.1'', exploded_UniProt_ID = Some ''P00330''\<rparr>,
        \<lparr>exploded_EC_number = ''1.1.1.1'', exploded_UniProt_ID = Some '' ''\<rparr>,
        \<lparr>exploded_EC_number = ''1.1.1.1'', exploded_UniProt_ID = Some ''P00331''\<rparr>]"
  by code_simp

section \<open>Properties of the merger\<close>




section \<open>Properties of the batch fetcher\<close>

subsection \<open>Column names\<close>

lemma columns_rename_column:
  "columns (rename_column df (old, new)) = map (\<lambda>c. if c = old then new else c) (columns df)"
proof (cases "old \<in> set (columns df)")
  case True
  then show ?thesis by (simp add: rename_column_def)
next
  case False
  then have "map (\<lambda>c. if c = old then new else c) (columns df) = columns df"
    by (intro map_idI) auto
  with False show ?thesis by (simp add: rename_column_def)
qed

lemma data_rename_column: "data (rename_column df on) = data df"
  by (cases on) (simp add: rename_column_def)

lemma foldl_rename_column:
  "columns (foldl rename_column df rm)
     = map (\<lambda>c. foldl (\<lambda>v on. if v = fst on then snd on else v) c rm) (columns df)
   \<and> data (foldl rename_column df rm) = data df"
proof (induction rm arbitrary: df)
  case Nil
  then show ?case by simp
next
  case (Cons on rm)
  obtain old new where on: "on = (old, new)" by (cases on)
  show ?case
    by (simp add: Cons.IH on columns_rename_column data_rename_column o_def)
qed
lemma rename_in_sequence:
  assumes "\<forall>(old, new) \<in> set rm. \<forall>(old', new') \<in> set rm. old' = new \<longrightarrow> new' = new"
  shows "foldl (\<lambda>v on. if v = fst on then snd on else v) c rm
     = (case map_of rm c of None \<Rightarrow> c | Some new \<Rightarrow> new)"
  using assms
proof (induction rm arbitrary: c)
  case Nil
  then show ?case by simp
next
  case (Cons on rm)
  obtain old new where on: "on = (old, new)" by (cases on)
  have rest: "\<forall>(old, new) \<in> set rm. \<forall>(old', new') \<in> set rm. old' = new \<longrightarrow> new' = new"
    using Cons.prems by auto
  show ?case
  proof (cases "c = old")
    case True
    have "foldl (\<lambda>v on. if v = fst on then snd on else v) new rm = new"
    proof (cases "map_of rm new")
      case None
      then show ?thesis using Cons.IH [OF rest, of new] by simp
    next
      case (Some new')
      then have "(new, new') \<in> set rm" by (rule map_of_SomeD)
      then have "new' = new" using Cons.prems on by auto
      then show ?thesis using Cons.IH [OF rest, of new] Some by simp
    qed
    then show ?thesis using True on by simp
  next
    case False
    then show ?thesis using Cons.IH [OF rest, of c] on by simp
  qed
qed

lemma rename_map_targets_fixed:
  "\<forall>(old, new) \<in> set rename_map. \<forall>(old', new') \<in> set rename_map. old' = new \<longrightarrow> new' = new"
  by code_simp

lemma rename_all_canonical:
  "foldl (\<lambda>v on. if v = fst on then snd on else v) c rename_map = canonical c"
  unfolding canonical_def by (rule rename_in_sequence [OF rename_map_targets_fixed])

lemma columns_normalized_rename:
  "columns (foldl rename_column df rename_map) = map canonical (columns df)"
  by (simp only: foldl_rename_column rename_all_canonical)

lemma foldl_add_missing:
  "distinct es \<Longrightarrow>
   columns (foldl add_missing d es) = columns d @ filter (\<lambda>e. e \<notin> set (columns d)) es
   \<and> data (foldl add_missing d es)
       = map (\<lambda>r. r @ replicate (length (filter (\<lambda>e. e \<notin> set (columns d)) es)) None) (data d)"
proof (induction es arbitrary: d)
  case Nil
  then show ?case by simp
next
  case (Cons e es)
  then have des: "distinct es" and e: "e \<notin> set es" by simp_all
  show ?case
  proof (cases "e \<in> set (columns d)")
    case True
    then have "add_missing d e = d" by (simp add: add_missing_def)
    with Cons.IH [OF des, of d] True show ?thesis by simp
  next
    case False
    let ?d = "add_missing d e"
    have c: "columns ?d = columns d @ [e]" and dd: "data ?d = map (\<lambda>row. row @ [None]) (data d)"
      using False by (simp_all add: add_missing_def)
    have f: "filter (\<lambda>x. x \<notin> set (columns ?d)) es = filter (\<lambda>x. x \<notin> set (columns d)) es"
      unfolding c using e by (intro filter_cong) auto
    from Cons.IH [OF des, of ?d]
    have A: "columns (foldl add_missing ?d es) = columns ?d @ filter (\<lambda>x. x \<notin> set (columns ?d)) es"
      and B: "data (foldl add_missing ?d es)
          = map (\<lambda>r. r @ replicate (length (filter (\<lambda>x. x \<notin> set (columns ?d)) es)) None) (data ?d)"
      by simp_all
    have A': "columns (foldl add_missing ?d es) = columns d @ e # filter (\<lambda>x. x \<notin> set (columns d)) es"
      by (subst A, subst f, subst c) simp
    have B': "data (foldl add_missing ?d es)
          = map (\<lambda>r. r @ replicate (Suc (length (filter (\<lambda>x. x \<notin> set (columns d)) es))) None) (data d)"
      by (subst B, subst f, subst dd) (simp add: o_def)
    show ?thesis
      using False A' B' by simp
  qed
qed

lemma filter_eq_index: "filter (\<lambda>j. j = i) [0..<n] = (if i < n then [i] else [])"
  by (induction n) auto

lemma positions_of_distinct:
  assumes "distinct cs" "i < length cs"
  shows "positions_of cs (cs ! i) = [i]"
proof -
  have "filter (\<lambda>j. cs ! j = cs ! i) [0..<length cs] = filter (\<lambda>j. j = i) [0..<length cs]"
    using assms by (intro filter_cong) (auto simp add: nth_eq_iff_index_eq)
  then show ?thesis using assms by (simp add: positions_of_def filter_eq_index)
qed

lemma positions_of_absent: "e \<notin> set cs \<Longrightarrow> positions_of cs e = []"
  by (auto simp add: positions_of_def filter_empty_conv)

lemma positions_list_all2:
  assumes "distinct cs" "set es \<subseteq> set cs"
  shows "list_all2 (\<lambda>p e. p < length cs \<and> cs ! p = e) (concat (map (positions_of cs) es)) es"
  using assms(2)
proof (induction es)
  case Nil
  then show ?case by simp
next
  case (Cons e es)
  then obtain i where i: "i < length cs" "cs ! i = e"
    by (auto simp add: in_set_conv_nth)
  then have "positions_of cs e = [i]"
    using positions_of_distinct [OF assms(1), of i] by simp
  with Cons i show ?case by simp
qed

lemma list_all2_map_eq: "list_all2 (\<lambda>p e. Q p \<and> f p = e) ps es \<Longrightarrow> map f ps = es"
  by (induction ps es rule: list_all2_induct) simp_all

lemma distinct_expected: "distinct expected"
  by (simp add: expected_def)

lemma normalize_columns_shape:
  assumes d: "distinct (map canonical (columns df))"
  defines "cs1 \<equiv> map canonical (columns df)"
  defines "ms \<equiv> filter (\<lambda>e. e \<notin> set (map canonical (columns df))) expected"
  defines "ps \<equiv> concat (map (positions_of (map canonical (columns df) @ filter (\<lambda>e. e \<notin> set (map canonical (columns df))) expected)) expected)"
  shows "columns (normalize_columns df) = expected"
    and "data (normalize_columns df)
          = map (\<lambda>r. map (cell_at (r @ replicate (length ms) None)) ps) (data df)"
    and "list_all2 (\<lambda>p e. p < length (cs1 @ ms) \<and> (cs1 @ ms) ! p = e) ps expected"
    and "distinct (cs1 @ ms)"
proof -
  let ?d1 = "foldl rename_column df rename_map"
  have c1: "columns ?d1 = cs1" and d1: "data ?d1 = data df"
    using columns_normalized_rename [of df] foldl_rename_column [of df rename_map]
    by (simp_all only: cs1_def)
  let ?d2 = "foldl add_missing ?d1 expected"
  have c2: "columns ?d2 = cs1 @ ms"
    and d2: "data ?d2 = map (\<lambda>r. r @ replicate (length ms) None) (data df)"
    using foldl_add_missing [OF distinct_expected, of ?d1]
    by (simp_all add: c1 d1 ms_def cs1_def)
  show dist: "distinct (cs1 @ ms)"
    using d distinct_expected by (auto simp add: cs1_def ms_def)
  have sub: "set expected \<subseteq> set (cs1 @ ms)"
    by (auto simp add: ms_def cs1_def)
  show la: "list_all2 (\<lambda>p e. p < length (cs1 @ ms) \<and> (cs1 @ ms) ! p = e) ps expected"
    using positions_list_all2 [OF dist sub] by (simp add: ps_def cs1_def ms_def)
  show "columns (normalize_columns df) = expected"
    using list_all2_map_eq [OF la]
    by (simp add: normalize_columns_def select_columns_def Let_def c2 ps_def cs1_def ms_def)
  show "data (normalize_columns df)
          = map (\<lambda>r. map (cell_at (r @ replicate (length ms) None)) ps) (data df)"
    by (simp add: normalize_columns_def select_columns_def Let_def c2 d2 ps_def cs1_def ms_def o_def)
qed

lemma column_of_at:
  assumes "distinct cs" "k < length cs"
  shows "column_of \<lparr>columns = cs, data = rws\<rparr> (cs ! k) = Some (map (\<lambda>row. cell_at row k) rws)"
  using positions_of_distinct [OF assms] by (simp add: column_of_def)

lemma frame_eta: "\<lparr>columns = columns df, data = data df\<rparr> = df"
  by simp

lemma column_of_normalized_present:
  assumes d: "distinct (map canonical (columns df))"
    and rect: "\<forall>row \<in> set (data df). length row = length (columns df)"
    and l: "l \<in> set (columns df)" and e: "canonical l \<in> set expected"
  shows "column_of (normalize_columns df) (canonical l) = column_of df l"
proof -
  define cs1 where "cs1 = map canonical (columns df)"
  define ms where "ms = filter (\<lambda>e. e \<notin> set (map canonical (columns df))) expected"
  define ps where "ps = concat (map (positions_of (map canonical (columns df) @ filter (\<lambda>e. e \<notin> set (map canonical (columns df))) expected)) expected)"
  note shape = normalize_columns_shape [OF d, folded cs1_def ms_def ps_def]
  from l obtain i where i: "i < length (columns df)" "columns df ! i = l"
    by (auto simp add: in_set_conv_nth)
  from e obtain k where k: "k < length expected" "expected ! k = canonical l"
    by (auto simp add: in_set_conv_nth)
  have lp: "length ps = length expected"
    using shape(3) by (rule list_all2_lengthD)
  have pk: "ps ! k < length (cs1 @ ms)" "(cs1 @ ms) ! (ps ! k) = canonical l"
    using shape(3) k by (auto simp add: list_all2_conv_all_nth)
  have "(cs1 @ ms) ! i = canonical l"
    using i by (simp add: cs1_def nth_append)
  moreover have "i < length (cs1 @ ms)" using i by (simp add: cs1_def)
  ultimately have pki: "ps ! k = i"
    using pk shape(4) by (metis nth_eq_iff_index_eq)
  have out: "column_of (normalize_columns df) (canonical l)
      = Some (map (\<lambda>row. cell_at row k) (data (normalize_columns df)))"
    using column_of_at [OF distinct_expected k(1), of "data (normalize_columns df)"] shape(1) k(2)
    by (metis frame_eta)
  have dcs: "distinct (columns df)"
    using d by (simp add: distinct_map)
  have inp: "column_of df l = Some (map (\<lambda>row. cell_at row i) (data df))"
    using column_of_at [OF dcs i(1), of "data df"] i(2) by (simp only: frame_eta)
  have "cell_at (map (cell_at (r @ replicate (length ms) None)) ps) k = cell_at r i"
    if "r \<in> set (data df)" for r
  proof -
    have "length r = length (columns df)" using rect that by blast
    then show ?thesis using k lp pki i by (simp add: cell_at_def nth_append)
  qed
  then have "map (\<lambda>row. cell_at row k) (data (normalize_columns df))
      = map (\<lambda>row. cell_at row i) (data df)"
    unfolding shape(2) by (simp add: o_def)
  with out inp show ?thesis by simp
qed

lemma column_of_normalized_absent:
  assumes d: "distinct (map canonical (columns df))"
    and rect: "\<forall>row \<in> set (data df). length row = length (columns df)"
    and e: "e \<in> set expected" and a: "e \<notin> canonical ` set (columns df)"
  shows "column_of (normalize_columns df) e = Some (replicate (length (data df)) None)"
proof -
  define cs1 where "cs1 = map canonical (columns df)"
  define ms where "ms = filter (\<lambda>e. e \<notin> set (map canonical (columns df))) expected"
  define ps where "ps = concat (map (positions_of (map canonical (columns df) @ filter (\<lambda>e. e \<notin> set (map canonical (columns df))) expected)) expected)"
  note shape = normalize_columns_shape [OF d, folded cs1_def ms_def ps_def]
  from e obtain k where k: "k < length expected" "expected ! k = e"
    by (auto simp add: in_set_conv_nth)
  have lp: "length ps = length expected"
    using shape(3) by (rule list_all2_lengthD)
  have pk: "ps ! k < length (cs1 @ ms)" "(cs1 @ ms) ! (ps ! k) = e"
    using shape(3) k by (auto simp add: list_all2_conv_all_nth)
  have ge: "length (columns df) \<le> ps ! k"
  proof (rule ccontr)
    assume "\<not> length (columns df) \<le> ps ! k"
    then have lt: "ps ! k < length (columns df)" by simp
    then have "e = canonical (columns df ! (ps ! k))"
      using pk(2) by (simp add: cs1_def nth_append)
    with lt a show False by auto
  qed
  have out: "column_of (normalize_columns df) e
      = Some (map (\<lambda>row. cell_at row k) (data (normalize_columns df)))"
    using column_of_at [OF distinct_expected k(1), of "data (normalize_columns df)"] shape(1) k(2)
    by (metis frame_eta)
  have "cell_at (map (cell_at (r @ replicate (length ms) None)) ps) k = None"
    if "r \<in> set (data df)" for r
  proof -
    have "length r = length (columns df)" using rect that by blast
    then show ?thesis using k lp ge by (simp add: cell_at_def nth_append)
  qed
  then have "map (\<lambda>row. cell_at row k) (data (normalize_columns df))
      = map (\<lambda>row. None) (data df)"
    unfolding shape(2) by (simp add: o_def)
  with out show ?thesis by (simp add: map_replicate_const)
qed

text \<open>
  Claim C9, as amended.  For a successful response with a body that is not blank, whose
  table has no two labels with the same canonical name, the batch has exactly the six
  canonical columns and as many rows as the response; a column whose label is a known
  synonym or a canonical name holds the response's cells, and a canonical column that no
  label of the response stands for holds nulls.
\<close>

theorem fetch_uniprot_batch_canonical_schema:
  assumes "accessions \<noteq> []"
    and "get (build_accession_query accessions) = Response 200 body"
    and "strip body \<noteq> []"
    and "read_csv (strip body) = Inr df"
    and "distinct (map canonical (columns df))"
    and "\<forall>row \<in> set (data df). length row = length (columns df)"
  shows "fetch_uniprot_batch get read_csv accessions = Inr (normalize_columns df)
    \<and> columns (normalize_columns df) = expected
    \<and> length (data (normalize_columns df)) = length (data df)
    \<and> (\<forall>l \<in> set (columns df). canonical l \<in> set expected \<longrightarrow>
          column_of (normalize_columns df) (canonical l) = column_of df l)
    \<and> (\<forall>e \<in> set expected. e \<notin> canonical ` set (columns df) \<longrightarrow>
          column_of (normalize_columns df) e = Some (replicate (length (data df)) None))"
proof -
  have a: "fetch_uniprot_batch get read_csv accessions = Inr (normalize_columns df)"
    using assms(1-4) by (simp add: fetch_uniprot_batch_def Let_def)
  note shape = normalize_columns_shape [OF assms(5)]
  have b: "columns (normalize_columns df) = expected" by (rule shape(1))
  have c: "length (data (normalize_columns df)) = length (data df)"
    unfolding shape(2) by simp
  from a b c column_of_normalized_present [OF assms(5,6)]
    column_of_normalized_absent [OF assms(5,6)]
  show ?thesis by blast
qed

theorem fetch_uniprot_batch_canonical_schema_witness:
  "fetch_uniprot_batch
     (\<lambda>q. Response 200 (''Entry'' @ [CHR 0x09] @ ''Organism (scientific name)'' @ [CHR 0x0A]
                          @ ''P00330'' @ [CHR 0x09] @ ''Saccharomyces cerevisiae'' @ [CHR 0x0A]))
     (\<lambda>t. Inr \<lparr>columns = [''Entry'', ''Organism (scientific name)''],
                 data = [[Some ''P00330'', Some ''Saccharomyces cerevisiae'']]\<rparr>)
     [''P00330'']
   = Inr \<lparr>columns = [''UniProt_ID'', ''Sequence'', ''Length'', ''Organism'', ''Protein_name'', ''Gene_name''],
          data = [[Some ''P00330'', None, None, Some ''Saccharomyces cerevisiae'', None, None]]\<rparr>
   \<and> column_of (normalize_columns \<lparr>columns = [''Entry'', ''Organism (scientific name)''],
                 data = [[Some ''P00330'', Some ''Saccharomyces cerevisiae'']]\<rparr>) ''Organism''
       = Some [Some ''Saccharomyces cerevisiae'']
   \<and> column_of (normalize_columns \<lparr>columns = [''Entry'', ''Organism (scientific name)''],
                 data = [[Some ''P00330'', Some ''Saccharomyces cerevisiae'']]\<rparr>) ''Length''
       = Some [None]"
proof -
  let ?body = "''Entry'' @ [CHR 0x09] @ ''Organism (scientific name)'' @ [CHR 0x0A]
                          @ ''P00330'' @ [CHR 0x09] @ ''Saccharomyces cerevisiae'' @ [CHR 0x0A]"
  let ?df = "\<lparr>columns = [''Entry'', ''Organism (scientific name)''],
                 data = [[Some ''P00330'', Some ''Saccharomyces cerevisiae'']]\<rparr>"
  let ?get = "\<lambda>q :: string. Response 200 ?body"
  let ?read = "\<lambda>t :: string. (Inr ?df :: py_error + frame)"
  have h1: "[''P00330''] \<noteq> []" by simp
  have h2: "?get (build_accession_query [''P00330'']) = Response 200 ?body" by simp
  have h3: "strip ?body \<noteq> []" by code_simp
  have h4: "?read (strip ?body) = Inr ?df" by simp
  have h5: "distinct (map canonical (columns ?df))" by code_simp
  have h6: "\<forall>row \<in> set (data ?df). length row = length (columns ?df)" by simp
  note T = fetch_uniprot_batch_canonical_schema [of "[''P00330'']" ?get ?body ?read ?df, OF h1 h2 h3 h4 h5 h6]
  have n: "normalize_columns ?df
     = \<lparr>columns = [''UniProt_ID'', ''Sequence'', ''Length'', ''Organism'', ''Protein_name'', ''Gene_name''],
          data = [[Some ''P00330'', None, None, Some ''Saccharomyces cerevisiae'', None, None]]\<rparr>"
    by code_simp
  have c: "canonical ''Organism (scientific name)'' = ''Organism''" by code_simp
  have e1: "''Organism'' \<in> set expected" and e2: "''Length'' \<in> set expected"
    by (simp_all add: expected_def)
  have a: "''Length'' \<notin> canonical ` set (columns ?df)" by code_simp
  have i: "column_of ?df ''Organism (scientific name)'' = Some [Some ''Saccharomyces cerevisiae'']"
    by code_simp
  from T have "fetch_uniprot_batch ?get ?read [''P00330''] = Inr (normalize_columns ?df)" by blast
  moreover from T c e1 i have "column_of (normalize_columns ?df) ''Organism'' = Some [Some ''Saccharomyces cerevisiae'']"
    by (metis insertCI list.set(2) frame.select_convs(1))
  moreover from T e2 a have "column_of (normalize_columns ?df) ''Length'' = Some [None]"
    by (metis One_nat_def frame.select_convs(2) length_Cons list.size(3) replicate.simps(1) replicate.simps(2))
  ultimately show ?thesis unfolding n by simp
qed

text \<open>
  Claim C9 as stated holds for whatever synonyms the response uses.  A response with the
  labels \<open>Entry\<close>, \<open>Organism\<close> and \<open>Organism (scientific name)\<close> has two labels for one
  canonical field; both are renamed to \<open>Organism\<close>, the selection returns both, and the
  batch has seven columns.
\<close>

theorem normalize_columns_duplicate_counterexample:
  "normalize_columns
     \<lparr>columns = [''Entry'', ''Organism'', ''Organism (scientific name)''],
      data = [[Some ''P00330'', Some ''Yeast'', Some ''Saccharomyces cerevisiae'']]\<rparr>
   = \<lparr>columns = [''UniProt_ID'', ''Sequence'', ''Length'', ''Organism'', ''Organism'',
                 ''Protein_name'', ''Gene_name''],
      data = [[Some ''P00330'', None, None, Some ''Yeast'', Some ''Saccharomyces cerevisiae'',
               None, None]]\<rparr>"
  by code_simp

subsection \<open>Failed chunks\<close>

text \<open>
  A request that fails gives the empty table, which the loop does not collect: the loop over
  all chunks is the loop over the chunks whose request does not fail.
\<close>

lemma fetch_failed_chunk:
  "chunk_failed (get (build_accession_query chunk)) \<Longrightarrow>
   fetch_uniprot_batch get read_csv chunk = Inr empty_frame"
  by (cases "get (build_accession_query chunk)")
     (auto simp add: chunk_failed_def fetch_uniprot_batch_def Let_def)

lemma is_empty_empty_frame: "is_empty empty_frame"
  by (simp add: is_empty_def empty_frame_def)

lemma fetch_chunks_skip:
  "chunk_fails service (i, chunk) \<Longrightarrow>
   fetch_chunks service read_csv ((i, chunk) # rest) all_dfs
     = fetch_chunks service read_csv rest all_dfs"
  by (simp add: chunk_fails_def fetch_failed_chunk is_empty_empty_frame)

lemma fetch_chunks_filter:
  "fetch_chunks service read_csv ics all_dfs
     = fetch_chunks service read_csv (filter (\<lambda>ic. \<not> chunk_fails service ic) ics) all_dfs"
proof (induction ics arbitrary: all_dfs)
  case Nil
  then show ?case by simp
next
  case (Cons ic ics)
  obtain i chunk where ic: "ic = (i, chunk)" by (cases ic)
  show ?case
  proof (cases "chunk_fails service (i, chunk)")
    case True
    then show ?thesis
      unfolding ic using Cons.IH by (simp add: fetch_chunks_skip del: fetch_chunks.simps)
  next
    case False
    then show ?thesis
      unfolding ic using Cons.IH by (simp split: sum.splits)
  qed
qed

lemma fetch_chunks_all_failed:
  assumes "list_all (chunk_fails service) ics"
  shows "fetch_chunks service read_csv ics all_dfs = Inr all_dfs"
proof -
  have "filter (\<lambda>ic. \<not> chunk_fails service ic) ics = []"
    using assms by (simp add: filter_empty_conv list_all_iff)
  then show ?thesis
    using fetch_chunks_filter [of service read_csv ics all_dfs] by simp
qed

lemma fetch_chunks_successful:
  assumes "list_all (\<lambda>ic. \<not> isl (chunk_result service read_csv ic)) ics"
  shows "fetch_chunks service read_csv ics all_dfs
     = Inr (all_dfs @ fetched_tables service read_csv ics)"
  using assms
proof (induction ics arbitrary: all_dfs)
  case Nil
  then show ?case by (simp add: fetched_tables_def)
next
  case (Cons ic ics)
  obtain i chunk where ic: "ic = (i, chunk)" by (cases ic)
  from Cons.prems obtain df where df: "fetch_uniprot_batch (service i) read_csv chunk = Inr df"
    unfolding ic by (cases "fetch_uniprot_batch (service i) read_csv chunk") (simp_all add: chunk_result_def)
  from Cons.prems have rest: "list_all (\<lambda>ic. \<not> isl (chunk_result service read_csv ic)) ics"
    by simp
  show ?case
  proof (cases "chunk_fails service (i, chunk)")
    case True
    then show ?thesis
      unfolding ic using Cons.IH [OF rest]
      by (simp add: fetch_chunks_skip fetched_tables_def del: fetch_chunks.simps)
  next
    case False
    then show ?thesis
      unfolding ic using Cons.IH [OF rest] df by (simp add: chunk_result_def fetched_tables_def)
  qed
qed

lemma download_by_chunks:
  assumes "chunk_size \<noteq> 0"
  shows "download_uniprot_batch service read_csv astype_str pairs_col chunk_size
     = (case fetch_chunks service read_csv (enumerated_chunks astype_str pairs_col chunk_size) [] of
          Inl e \<Rightarrow> Inl e
        | Inr all_dfs \<Rightarrow> combine_chunks all_dfs)"
proof -
  obtain chunks where c: "chunk_list (sort (unique (dropna pairs_col))) chunk_size = Inr chunks"
    using assms by (cases "chunk_size < 0") (simp_all add: chunk_list_def Let_def)
  then show ?thesis
    by (simp add: download_uniprot_batch_def enumerated_chunks_def Let_def)
qed

lemma download_all_failed:
  assumes "chunk_size \<noteq> 0" "\<And>i q. chunk_failed (service i q)"
  shows "download_uniprot_batch service read_csv astype_str pairs_col chunk_size = Inr None"
proof -
  have "list_all (chunk_fails service) (enumerated_chunks astype_str pairs_col chunk_size)"
    using assms(2) by (auto simp add: list_all_iff chunk_fails_def)
  then have "fetch_chunks service read_csv (enumerated_chunks astype_str pairs_col chunk_size) [] = Inr []"
    by (rule fetch_chunks_all_failed)
  then show ?thesis
    using download_by_chunks [OF assms(1), of service read_csv astype_str pairs_col]
    by (simp add: combine_chunks_def)
qed

subsection \<open>Chunks and their tables\<close>

text \<open>
  A response in which no two labels have the same canonical name gives a table with the
  canonical columns, so the tables collected from such responses are stacked as they are.
\<close>

lemma well_labelled_result:
  assumes "response_well_labelled service read_csv (i, chunk)"
  shows "\<exists>df. fetch_uniprot_batch (service i) read_csv chunk = Inr df
            \<and> (is_empty df \<or> columns df = expected)"
proof (cases "chunk_fails service (i, chunk)")
  case True
  then show ?thesis
    by (auto simp add: chunk_fails_def fetch_failed_chunk is_empty_empty_frame)
next
  case False
  then obtain body where r: "service i (build_accession_query chunk) = Response 200 body"
    and b: "strip body \<noteq> []"
    by (cases "service i (build_accession_query chunk)")
       (auto simp add: chunk_fails_def chunk_failed_def)
  with assms obtain df where df: "read_csv (strip body) = Inr df"
    and d: "distinct (map canonical (columns df))"
    by (cases "read_csv (strip body)") (auto simp add: response_well_labelled_def)
  show ?thesis
  proof (cases "chunk = []")
    case True
    then show ?thesis by (simp add: fetch_uniprot_batch_def is_empty_empty_frame)
  next
    case ne: False
    have "fetch_uniprot_batch (service i) read_csv chunk = Inr (normalize_columns df)"
      using ne r b df by (simp add: fetch_uniprot_batch_def Let_def)
    moreover have "columns (normalize_columns df) = expected"
      by (rule normalize_columns_shape(1) [OF d])
    ultimately show ?thesis by simp
  qed
qed

lemma well_labelled_tables:
  assumes "list_all (response_well_labelled service read_csv) ics"
  shows "list_all (\<lambda>ic. \<not> isl (chunk_result service read_csv ic)) ics"
    and "\<forall>df \<in> set (fetched_tables service read_csv ics). columns df = expected"
proof -
  have each: "\<exists>df. chunk_result service read_csv ic = Inr df \<and> (is_empty df \<or> columns df = expected)"
    if "ic \<in> set ics" for ic
  proof -
    obtain i chunk where ic: "ic = (i, chunk)" by (cases ic)
    have "response_well_labelled service read_csv (i, chunk)"
      using assms that ic by (simp add: list_all_iff)
    from well_labelled_result [OF this] show ?thesis
      by (simp add: ic chunk_result_def)
  qed
  show "list_all (\<lambda>ic. \<not> isl (chunk_result service read_csv ic)) ics"
    unfolding list_all_iff using each by fastforce
  show "\<forall>df \<in> set (fetched_tables service read_csv ics). columns df = expected"
  proof
    fix df
    assume "df \<in> set (fetched_tables service read_csv ics)"
    then obtain ic where ic: "ic \<in> set ics" and df: "df = projr (chunk_result service read_csv ic)"
      and ne: "\<not> is_empty df"
      by (auto simp add: fetched_tables_def)
    from each [OF ic] df ne show "columns df = expected" by auto
  qed
qed

lemma concat_frames_same_columns:
  assumes "all_dfs \<noteq> []" "\<forall>df \<in> set all_dfs. columns df = cs"
  shows "concat_frames all_dfs = Inr \<lparr>columns = cs, data = concat (map data all_dfs)\<rparr>"
proof -
  obtain df rest where a: "all_dfs = df # rest" using assms(1) by (cases all_dfs) auto
  have "list_all (\<lambda>d. columns d = columns df) all_dfs"
    using assms(2) a by (auto simp add: list_all_iff)
  then show ?thesis using assms(2) a by (simp add: concat_frames_def)
qed

lemma key_of_accession:
  assumes "length row = length expected"
  shows "key_of [''UniProt_ID''] expected row = [row ! 0]"
proof (cases row)
  case Nil
  then show ?thesis using assms by (simp add: expected_def)
next
  case (Cons a list)
  have "filter (\<lambda>(c, v). c = ''UniProt_ID'')
          (zip [''Sequence'', ''Length'', ''Organism'', ''Protein_name'', ''Gene_name''] list) = []"
    by (auto simp add: filter_empty_conv dest!: set_zip_leftD)
  then show ?thesis using Cons by (simp add: key_of_def expected_def)
qed

text \<open>
  The chunks are consecutive pieces of the sorted list of distinct ids, so chunk order is
  the order of the sorted ids.
\<close>

lemma concat_chunks_take:
  "concat (map (\<lambda>j. take k (drop (j * k) items)) [0..<m]) = take (m * k) items"
proof (induction m)
  case 0
  then show ?case by simp
next
  case (Suc m)
  have "take (m * k + k) items = take (m * k) items @ take k (drop (m * k) items)"
    by (rule take_add)
  with Suc show ?case by (simp add: add.commute)
qed

lemma chunk_list_concat:
  assumes "0 < chunk_size" "chunk_list items chunk_size = Inr chunks"
  shows "concat chunks = items"
proof -
  define k where "k = nat chunk_size"
  have k: "0 < k" using assms(1) by (simp add: k_def)
  have c: "chunks = map (\<lambda>j. take k (drop (j * k) items)) [0..<(length items + k - 1) div k]"
    using assms by (simp add: chunk_list_def Let_def k_def)
  have "length items \<le> (length items + k - 1) div k * k"
  proof -
    have "(length items + k - 1) mod k < k" using k by simp
    moreover have "(length items + k - 1) div k * k + (length items + k - 1) mod k = length items + k - 1"
      by simp
    ultimately show ?thesis using k by arith
  qed
  then show ?thesis unfolding c concat_chunks_take by simp
qed

lemma enumerated_chunks_order:
  assumes "0 < chunk_size"
  shows "concat (map snd (enumerated_chunks astype_str pairs_col chunk_size))
           = map astype_str (sort (unique (dropna pairs_col)))"
    and "map fst (enumerated_chunks astype_str pairs_col chunk_size)
           = [1..<Suc (length (enumerated_chunks astype_str pairs_col chunk_size))]"
proof -
  obtain chunks where c: "chunk_list (sort (unique (dropna pairs_col))) chunk_size = Inr chunks"
    using assms by (simp add: chunk_list_def Let_def)
  have e: "enumerated_chunks astype_str pairs_col chunk_size
      = zip [1..<Suc (length chunks)] (map (map astype_str) chunks)"
    using c by (simp add: enumerated_chunks_def)
  have l: "length [1..<Suc (length chunks)] = length (map (map astype_str) chunks)"
    by (simp only: length_upt length_map diff_Suc_1)
  have "concat (map snd (enumerated_chunks astype_str pairs_col chunk_size))
      = concat (map (map astype_str) chunks)"
    unfolding e using l by (simp only: map_snd_zip)
  also have "\<dots> = map astype_str (concat chunks)"
    by (simp add: map_concat)
  also have "\<dots> = map astype_str (sort (unique (dropna pairs_col)))"
    using chunk_list_concat [OF assms c] by simp
  finally show "concat (map snd (enumerated_chunks astype_str pairs_col chunk_size))
           = map astype_str (sort (unique (dropna pairs_col)))" .
  have le: "length (enumerated_chunks astype_str pairs_col chunk_size) = length chunks"
    unfolding e by (simp only: length_zip l min.idem length_map)
  show "map fst (enumerated_chunks astype_str pairs_col chunk_size)
           = [1..<Suc (length (enumerated_chunks astype_str pairs_col chunk_size))]"
    unfolding le by (simp only: e map_fst_zip [OF l])
qed

text \<open>
  The download, when every response is of that kind: the table written is the stack of the
  tables fetched, in chunk order, reduced to the first row of each accession; nothing is
  written when no table was fetched.
\<close>

lemma download_well_labelled:
  assumes "chunk_size \<noteq> 0"
    and "list_all (response_well_labelled service read_csv)
           (enumerated_chunks astype_str pairs_col chunk_size)"
  shows "download_uniprot_batch service read_csv astype_str pairs_col chunk_size
     = Inr (if fetched_tables service read_csv (enumerated_chunks astype_str pairs_col chunk_size) = []
            then None
            else Some \<lparr>columns = expected,
                       data = keep_first (key_of [''UniProt_ID''] expected) []
                                (concat (map data
                                   (fetched_tables service read_csv
                                      (enumerated_chunks astype_str pairs_col chunk_size))))\<rparr>)"
proof -
  let ?ics = "enumerated_chunks astype_str pairs_col chunk_size"
  let ?T = "fetched_tables service read_csv ?ics"
  note w = well_labelled_tables [OF assms(2)]
  have f: "fetch_chunks service read_csv ?ics [] = Inr ?T"
    using fetch_chunks_successful [OF w(1), of "[]"] by simp
  show ?thesis
  proof (cases "?T = []")
    case True
    then show ?thesis
      using download_by_chunks [OF assms(1), of service read_csv astype_str pairs_col] f
      by (simp add: combine_chunks_def)
  next
    case False
    have "concat_frames ?T = Inr \<lparr>columns = expected, data = concat (map data ?T)\<rparr>"
      using concat_frames_same_columns [OF False w(2)] .
    then show ?thesis
      using False download_by_chunks [OF assms(1), of service read_csv astype_str pairs_col] f
      by (simp add: combine_chunks_def drop_duplicates_def)
  qed
qed

subsection \<open>The download with failing chunks\<close>

text \<open>
  Claim C3.  A chunk whose request raises, returns a status other than 200 or returns a
  blank body yields the empty table without an error, and the loop goes on with the
  chunks after it: the tables collected are those collected for the other chunks alone, and
  when every chunk decodes or fails they are the tables of the chunks that did not fail, in
  order.  For the download as a whole, with a chunk size other than 0 (for which \<open>range\<close>
  raises before any request): its result is the result of the download over the chunks that
  do not fail; when every other response decodes to a table without two labels for one
  canonical field, it returns normally the stacked tables of the chunks that did not fail,
  reduced to one row per accession, or no table when nothing was fetched; when every request
  fails it returns without a table and without an error.
\<close>

theorem failed_chunks_are_skipped:
  "(chunk_failed (get (build_accession_query chunk)) \<longrightarrow>
      fetch_uniprot_batch get read_csv chunk = Inr empty_frame)
   \<and> (chunk_fails service (i, chunk) \<longrightarrow>
        fetch_chunks service read_csv ((i, chunk) # rest) all_dfs
          = fetch_chunks service read_csv rest all_dfs)
   \<and> fetch_chunks service read_csv ics all_dfs
       = fetch_chunks service read_csv (filter (\<lambda>ic. \<not> chunk_fails service ic) ics) all_dfs
   \<and> (list_all (\<lambda>ic. \<not> isl (chunk_result service read_csv ic)) ics \<longrightarrow>
        fetch_chunks service read_csv ics all_dfs
          = Inr (all_dfs @ fetched_tables service read_csv ics))
   \<and> (chunk_size \<noteq> 0 \<longrightarrow>
        download_uniprot_batch service read_csv astype_str pairs_col chunk_size
          = (case fetch_chunks service read_csv
                    (filter (\<lambda>ic. \<not> chunk_fails service ic)
                       (enumerated_chunks astype_str pairs_col chunk_size)) [] of
               Inl e \<Rightarrow> Inl e
             | Inr all_dfs \<Rightarrow> combine_chunks all_dfs))
   \<and> (chunk_size \<noteq> 0
        \<and> list_all (response_well_labelled service read_csv)
             (enumerated_chunks astype_str pairs_col chunk_size) \<longrightarrow>
        download_uniprot_batch service read_csv astype_str pairs_col chunk_size
          = Inr (if fetched_tables service read_csv
                      (enumerated_chunks astype_str pairs_col chunk_size) = []
                 then None
                 else Some \<lparr>columns = expected,
                            data = keep_first (key_of [''UniProt_ID''] expected) []
                                     (concat (map data
                                        (fetched_tables service read_csv
                                           (enumerated_chunks astype_str pairs_col chunk_size))))\<rparr>))
   \<and> (chunk_size \<noteq> 0 \<and> (\<forall>i q. chunk_failed (service i q)) \<longrightarrow>
        download_uniprot_batch service read_csv astype_str pairs_col chunk_size = Inr None)"
proof -
  have d: "chunk_size \<noteq> 0 \<longrightarrow>
        download_uniprot_batch service read_csv astype_str pairs_col chunk_size
          = (case fetch_chunks service read_csv
                    (filter (\<lambda>ic. \<not> chunk_fails service ic)
                       (enumerated_chunks astype_str pairs_col chunk_size)) [] of
               Inl e \<Rightarrow> Inl e
             | Inr all_dfs \<Rightarrow> combine_chunks all_dfs)"
    using download_by_chunks [of chunk_size service read_csv astype_str pairs_col]
      fetch_chunks_filter [of service read_csv "enumerated_chunks astype_str pairs_col chunk_size" "[]"]
    by simp
  show ?thesis
    using fetch_failed_chunk [of get chunk read_csv]
      fetch_chunks_skip [of service i chunk read_csv rest all_dfs]
      fetch_chunks_filter [of service read_csv ics all_dfs]
      fetch_chunks_successful [of service read_csv ics all_dfs]
      d
      download_well_labelled [of chunk_size service read_csv astype_str pairs_col]
      download_all_failed [of chunk_size service read_csv astype_str pairs_col]
    by (intro conjI impI) blast+
qed

theorem failed_chunks_are_skipped_witness:
  "fetch_uniprot_batch (\<lambda>q. RequestException) (\<lambda>t. Inr \<lparr>columns = [''Entry''], data = [[Some ''A''], [Some ''B'']]\<rparr>) [''C'']
       = Inr \<lparr>columns = [], data = []\<rparr>
   \<and> fetch_uniprot_batch (\<lambda>q. Response 503 ''Service Unavailable'') (\<lambda>t. Inr \<lparr>columns = [''Entry''], data = [[Some ''A''], [Some ''B'']]\<rparr>) [''C'']
       = Inr \<lparr>columns = [], data = []\<rparr>
   \<and> fetch_uniprot_batch (\<lambda>q. Response 200 [CHR 0x0A]) (\<lambda>t. Inr \<lparr>columns = [''Entry''], data = [[Some ''A''], [Some ''B'']]\<rparr>) [''C'']
       = Inr \<lparr>columns = [], data = []\<rparr>
   \<and> fetch_chunks (\<lambda>i q. if i = 2 then RequestException else Response 200 ''Entry'') (\<lambda>t. Inr \<lparr>columns = [''Entry''], data = [[Some ''A''], [Some ''B'']]\<rparr>) [(1, [''A'', ''B'']), (2, [''C''])] []
       = Inr [\<lparr>columns = [''UniProt_ID'', ''Sequence'', ''Length'', ''Organism'', ''Protein_name'', ''Gene_name''],
               data = [[Some ''A'', None, None, None, None, None],
                       [Some ''B'', None, None, None, None, None]]\<rparr>]
   \<and> download_uniprot_batch (\<lambda>i q. if i = 2 then RequestException else Response 200 ''Entry'') (\<lambda>t. Inr \<lparr>columns = [''Entry''], data = [[Some ''A''], [Some ''B'']]\<rparr>) (\<lambda>v. v) [Some ''C'', Some ''A'', Some ''B''] 2
       = Inr (Some \<lparr>columns = [''UniProt_ID'', ''Sequence'', ''Length'', ''Organism'', ''Protein_name'', ''Gene_name''],
               data = [[Some ''A'', None, None, None, None, None],
                       [Some ''B'', None, None, None, None, None]]\<rparr>)
   \<and> download_uniprot_batch (\<lambda>i q. RequestException) (\<lambda>t. Inr \<lparr>columns = [''Entry''], data = [[Some ''A''], [Some ''B'']]\<rparr>) (\<lambda>v. v)
         [Some ''C'', Some ''A'', Some ''B''] 2
       = Inr None"
proof -
  define service where "service = ((\<lambda>i q. if i = 2 then RequestException else Response 200 ''Entry'') :: nat \<Rightarrow> string \<Rightarrow> outcome)"
  define read where "read = ((\<lambda>t. Inr \<lparr>columns = [''Entry''], data = [[Some ''A''], [Some ''B'']]\<rparr>) :: string \<Rightarrow> py_error + frame)"
  define down where "down = ((\<lambda>i q. RequestException) :: nat \<Rightarrow> string \<Rightarrow> outcome)"
  define render where "render = (\<lambda>v :: string. v)"
  define col where "col = [Some ''C'', Some ''A'', Some ''B'']"
  define ics where "ics = [(1 :: nat, [''A'', ''B'']), (2, [''C''])]"
  have t1: "chunk_failed ((\<lambda>q. RequestException) (build_accession_query [''C'']))"
    by (simp add: chunk_failed_def)
  have t2: "chunk_failed ((\<lambda>q. Response 503 ''Service Unavailable'') (build_accession_query [''C'']))"
    by (simp add: chunk_failed_def)
  have t3: "chunk_failed ((\<lambda>q. Response 200 [CHR 0x0A]) (build_accession_query [''C'']))"
    by (simp add: chunk_failed_def strip_def isspace_def)
  have a1: "fetch_uniprot_batch (\<lambda>q. RequestException) read [''C''] = Inr empty_frame"
    using failed_chunks_are_skipped [where get = "\<lambda>q. RequestException" and chunk = "[''C'']"
        and read_csv = read and service = service and astype_str = render, THEN conjunct1] t1
    by simp
  have a2: "fetch_uniprot_batch (\<lambda>q. Response 503 ''Service Unavailable'') read [''C''] = Inr empty_frame"
    using failed_chunks_are_skipped [where get = "\<lambda>q. Response 503 ''Service Unavailable''"
        and chunk = "[''C'']" and read_csv = read and service = service and astype_str = render,
        THEN conjunct1] t2
    by simp
  have a3: "fetch_uniprot_batch (\<lambda>q. Response 200 [CHR 0x0A]) read [''C''] = Inr empty_frame"
    using failed_chunks_are_skipped [where get = "\<lambda>q. Response 200 [CHR 0x0A]"
        and chunk = "[''C'']" and read_csv = read and service = service and astype_str = render,
        THEN conjunct1] t3
    by simp
  note T = failed_chunks_are_skipped [where get = "service 2" and chunk = "[''C'']"
        and read_csv = read and service = service and astype_str = render and ics = ics
        and all_dfs = "[]" and pairs_col = col and chunk_size = 2 and i = 2 and rest = "[]"]
  have e: "enumerated_chunks render col 2 = ics"
    unfolding render_def col_def ics_def by code_simp
  have w: "list_all (response_well_labelled service read) ics"
    unfolding service_def read_def ics_def by code_simp
  have ok: "list_all (\<lambda>ic. \<not> isl (chunk_result service read ic)) ics"
    unfolding service_def read_def ics_def by code_simp
  have ft: "fetched_tables service read ics = [\<lparr>columns = [''UniProt_ID'', ''Sequence'', ''Length'', ''Organism'', ''Protein_name'', ''Gene_name''],
               data = [[Some ''A'', None, None, None, None, None],
                       [Some ''B'', None, None, None, None, None]]\<rparr>]"
    unfolding service_def read_def ics_def by code_simp
  have k: "keep_first (key_of [''UniProt_ID''] expected) [] (concat (map data [\<lparr>columns = [''UniProt_ID'', ''Sequence'', ''Length'', ''Organism'', ''Protein_name'', ''Gene_name''],
               data = [[Some ''A'', None, None, None, None, None],
                       [Some ''B'', None, None, None, None, None]]\<rparr>]))
         = [[Some ''A'', None, None, None, None, None], [Some ''B'', None, None, None, None, None]]"
    by code_simp
  have x: "expected = [''UniProt_ID'', ''Sequence'', ''Length'', ''Organism'', ''Protein_name'', ''Gene_name'']"
    by (simp add: expected_def)
  note T4 = T [THEN conjunct2, THEN conjunct2, THEN conjunct2, THEN conjunct1]
  note T6 = T [THEN conjunct2, THEN conjunct2, THEN conjunct2, THEN conjunct2, THEN conjunct2,
      THEN conjunct1]
  from T4 ok have b: "fetch_chunks service read ics [] = Inr ([] @ fetched_tables service read ics)"
    by (rule mp)
  have w': "(2 :: int) \<noteq> 0 \<and> list_all (response_well_labelled service read) (enumerated_chunks render col 2)"
    unfolding e using w by simp
  from T6 w' have "download_uniprot_batch service read render col 2
      = Inr (if fetched_tables service read (enumerated_chunks render col 2) = [] then None
             else Some \<lparr>columns = expected,
                        data = keep_first (key_of [''UniProt_ID''] expected) []
                                 (concat (map data (fetched_tables service read
                                    (enumerated_chunks render col 2))))\<rparr>)"
    by (rule mp)
  then have c: "download_uniprot_batch service read render col 2
      = Inr (if fetched_tables service read ics = [] then None
             else Some \<lparr>columns = expected,
                        data = keep_first (key_of [''UniProt_ID''] expected) []
                                 (concat (map data (fetched_tables service read ics)))\<rparr>)"
    unfolding e .
  have all: "\<forall>i q. chunk_failed (down i q)"
    by (simp add: chunk_failed_def down_def)
  have d: "download_uniprot_batch down read render col 2 = Inr None"
    using failed_chunks_are_skipped [where get = "service 2" and chunk = "[''C'']"
        and read_csv = read and service = down and astype_str = render
        and pairs_col = col and chunk_size = 2, THEN conjunct2, THEN conjunct2, THEN conjunct2,
        THEN conjunct2, THEN conjunct2, THEN conjunct2] all
    by simp
  have c': "download_uniprot_batch service read render col 2 = Inr (Some \<lparr>columns = [''UniProt_ID'', ''Sequence'', ''Length'', ''Organism'', ''Protein_name'', ''Gene_name''],
               data = [[Some ''A'', None, None, None, None, None],
                       [Some ''B'', None, None, None, None, None]]\<rparr>)"
    unfolding c ft k by (simp add: x)
  have b': "fetch_chunks service read ics [] = Inr [\<lparr>columns = [''UniProt_ID'', ''Sequence'', ''Length'', ''Organism'', ''Protein_name'', ''Gene_name''],
               data = [[Some ''A'', None, None, None, None, None],
                       [Some ''B'', None, None, None, None, None]]\<rparr>]"
    unfolding b ft by simp
  from a1 a2 a3 b' c' d show ?thesis
    unfolding service_def read_def down_def render_def col_def ics_def
    by (simp add: empty_frame_def)
qed

subsection \<open>Duplicates across chunks\<close>

text \<open>
  Claim C10.  For a positive chunk size and responses that each fail or decode to a table
  without two labels for one canonical field: the download writes nothing when no table was
  fetched; otherwise it writes a table with the canonical columns whose rows have pairwise
  different accessions, each the first row with its accession in the stack of the fetched
  tables in chunk order, and every accession fetched is kept.  The chunks, numbered from 1,
  are consecutive pieces of the sorted list of the distinct ids, and the key of a row is its
  accession.
\<close>

theorem download_keeps_first_seen:
  assumes "0 < chunk_size"
    and "list_all (response_well_labelled service read_csv)
           (enumerated_chunks astype_str pairs_col chunk_size)"
  shows "(fetched_tables service read_csv (enumerated_chunks astype_str pairs_col chunk_size) = [] \<longrightarrow>
            download_uniprot_batch service read_csv astype_str pairs_col chunk_size = Inr None)
     \<and> (fetched_tables service read_csv (enumerated_chunks astype_str pairs_col chunk_size) \<noteq> [] \<longrightarrow>
          (\<exists>out. download_uniprot_batch service read_csv astype_str pairs_col chunk_size = Inr (Some out)
             \<and> columns out = expected
             \<and> distinct (map (key_of [''UniProt_ID''] expected) (data out))
             \<and> (\<forall>r \<in> set (data out).
                   find (\<lambda>x. key_of [''UniProt_ID''] expected x = key_of [''UniProt_ID''] expected r)
                     (concat (map data
                        (fetched_tables service read_csv
                           (enumerated_chunks astype_str pairs_col chunk_size)))) = Some r)
             \<and> key_of [''UniProt_ID''] expected ` set (data out)
                 = key_of [''UniProt_ID''] expected `
                     set (concat (map data
                        (fetched_tables service read_csv
                           (enumerated_chunks astype_str pairs_col chunk_size))))))
     \<and> concat (map snd (enumerated_chunks astype_str pairs_col chunk_size))
         = map astype_str (sort (unique (dropna pairs_col)))
     \<and> map fst (enumerated_chunks astype_str pairs_col chunk_size)
         = [1..<Suc (length (enumerated_chunks astype_str pairs_col chunk_size))]
     \<and> (\<forall>row. length row = length expected \<longrightarrow> key_of [''UniProt_ID''] expected row = [row ! 0])"
proof -
  let ?key = "key_of [''UniProt_ID''] expected"
  let ?T = "fetched_tables service read_csv (enumerated_chunks astype_str pairs_col chunk_size)"
  let ?all = "concat (map data ?T)"
  let ?out = "\<lparr>columns = expected, data = keep_first ?key [] ?all\<rparr>"
  from assms(1) have nz: "chunk_size \<noteq> 0" by simp
  note d = download_well_labelled [OF nz assms(2)]
  have a: "?T = [] \<longrightarrow> download_uniprot_batch service read_csv astype_str pairs_col chunk_size = Inr None"
    using d by simp
  have b: "?T \<noteq> [] \<longrightarrow>
          (\<exists>out. download_uniprot_batch service read_csv astype_str pairs_col chunk_size = Inr (Some out)
             \<and> columns out = expected
             \<and> distinct (map ?key (data out))
             \<and> (\<forall>r \<in> set (data out). find (\<lambda>x. ?key x = ?key r) ?all = Some r)
             \<and> ?key ` set (data out) = ?key ` set ?all)"
  proof
    assume ne: "?T \<noteq> []"
    have 1: "download_uniprot_batch service read_csv astype_str pairs_col chunk_size = Inr (Some ?out)"
      using d ne by simp
    have 2: "distinct (map ?key (data ?out))"
      by (simp add: keep_first_distinct)
    have 3: "\<forall>r \<in> set (data ?out). find (\<lambda>x. ?key x = ?key r) ?all = Some r"
      using keep_first_is_first [of _ ?key "[]" ?all] by simp
    have 4: "?key ` set (data ?out) = ?key ` set ?all"
      using keep_first_keys [of ?key "[]" ?all] by simp
    from 1 2 3 4 show "\<exists>out. download_uniprot_batch service read_csv astype_str pairs_col chunk_size = Inr (Some out)
             \<and> columns out = expected
             \<and> distinct (map ?key (data out))
             \<and> (\<forall>r \<in> set (data out). find (\<lambda>x. ?key x = ?key r) ?all = Some r)
             \<and> ?key ` set (data out) = ?key ` set ?all"
      by (intro exI [of _ ?out]) simp
  qed
  have c: "\<forall>row. length row = length expected \<longrightarrow> ?key row = [row ! 0]"
    using key_of_accession by blast
  from a b enumerated_chunks_order [OF assms(1), of astype_str pairs_col] c
  show ?thesis by (intro conjI)
qed

theorem download_keeps_first_seen_witness:
  "download_uniprot_batch (\<lambda>i q. if i = 1 then Response 200 ''first'' else Response 200 ''second'')
     (\<lambda>t. if t = ''first'' then Inr \<lparr>columns = [''Entry'', ''Sequence''],
                    data = [[Some ''A'', Some ''MA''], [Some ''B'', Some ''MB'']]\<rparr>
              else Inr \<lparr>columns = [''Entry'', ''Sequence''],
                    data = [[Some ''B'', Some ''MX''], [Some ''C'', Some ''MC'']]\<rparr>)
     (\<lambda>v. v) [Some ''C'', Some ''A'', None, Some ''B'', Some ''A''] 2
   = Inr (Some \<lparr>columns = expected,
                 data = [[Some ''A'', Some ''MA'', None, None, None, None],
                         [Some ''B'', Some ''MB'', None, None, None, None],
                         [Some ''C'', Some ''MC'', None, None, None, None]]\<rparr>)
   \<and> distinct (map (key_of [''UniProt_ID''] expected) (data \<lparr>columns = expected,
                 data = [[Some ''A'', Some ''MA'', None, None, None, None],
                         [Some ''B'', Some ''MB'', None, None, None, None],
                         [Some ''C'', Some ''MC'', None, None, None, None]]\<rparr>))
   \<and> find (\<lambda>x. key_of [''UniProt_ID''] expected x = key_of [''UniProt_ID''] expected [Some ''B'', Some ''MB'', None, None, None, None])
        (concat (map data [\<lparr>columns = expected,
          data = [[Some ''A'', Some ''MA'', None, None, None, None],
                  [Some ''B'', Some ''MB'', None, None, None, None]]\<rparr>,
                           \<lparr>columns = expected,
          data = [[Some ''B'', Some ''MX'', None, None, None, None],
                  [Some ''C'', Some ''MC'', None, None, None, None]]\<rparr>])) = Some [Some ''B'', Some ''MB'', None, None, None, None]
   \<and> concat (map snd (enumerated_chunks (\<lambda>v. v) [Some ''C'', Some ''A'', None, Some ''B'', Some ''A''] 2))
       = [''A'', ''B'', ''C'']"
proof -
  define service where "service = ((\<lambda>i q. if i = 1 then Response 200 ''first'' else Response 200 ''second'') :: nat \<Rightarrow> string \<Rightarrow> outcome)"
  define read where "read = ((\<lambda>t. if t = ''first'' then Inr \<lparr>columns = [''Entry'', ''Sequence''],
                    data = [[Some ''A'', Some ''MA''], [Some ''B'', Some ''MB'']]\<rparr>
              else Inr \<lparr>columns = [''Entry'', ''Sequence''],
                    data = [[Some ''B'', Some ''MX''], [Some ''C'', Some ''MC'']]\<rparr>) :: string \<Rightarrow> py_error + frame)"
  define render where "render = (\<lambda>v :: string. v)"
  define col where "col = [Some ''C'', Some ''A'', None, Some ''B'', Some ''A'']"
  define tabs where "tabs = [\<lparr>columns = expected,
          data = [[Some ''A'', Some ''MA'', None, None, None, None],
                  [Some ''B'', Some ''MB'', None, None, None, None]]\<rparr>,
                           \<lparr>columns = expected,
          data = [[Some ''B'', Some ''MX'', None, None, None, None],
                  [Some ''C'', Some ''MC'', None, None, None, None]]\<rparr>]"
  define out0 where "out0 = \<lparr>columns = expected,
                 data = [[Some ''A'', Some ''MA'', None, None, None, None],
                         [Some ''B'', Some ''MB'', None, None, None, None],
                         [Some ''C'', Some ''MC'', None, None, None, None]]\<rparr>"
  let ?key = "key_of [''UniProt_ID''] expected"
  have h1: "(0 :: int) < 2" by simp
  have h2: "list_all (response_well_labelled service read) (enumerated_chunks render col 2)"
    unfolding service_def read_def render_def col_def by code_simp
  have ft: "fetched_tables service read (enumerated_chunks render col 2) = tabs"
    unfolding service_def read_def render_def col_def tabs_def by code_simp
  have ne: "tabs \<noteq> []" by (simp add: tabs_def)
  have s: "map render (sort (unique (dropna col))) = [''A'', ''B'', ''C'']"
    unfolding render_def col_def by code_simp
  have dl: "download_uniprot_batch service read render col 2 = Inr (Some out0)"
    unfolding service_def read_def render_def col_def out0_def by code_simp
  note T = download_keeps_first_seen [OF h1 h2, unfolded ft]
  from T ne obtain out where out: "download_uniprot_batch service read render col 2 = Inr (Some out)"
    "distinct (map ?key (data out))"
    "\<forall>r \<in> set (data out). find (\<lambda>x. ?key x = ?key r) (concat (map data tabs)) = Some r"
    by blast
  from out(1) dl have o: "out = out0" by simp
  have "[Some ''B'', Some ''MB'', None, None, None, None] \<in> set (data out)" unfolding o out0_def by simp
  with out(3) have f: "find (\<lambda>x. ?key x = ?key [Some ''B'', Some ''MB'', None, None, None, None]) (concat (map data tabs)) = Some [Some ''B'', Some ''MB'', None, None, None, None]"
    by blast
  from T have c: "concat (map snd (enumerated_chunks render col 2)) = map render (sort (unique (dropna col)))"
    by blast
  from dl out(2) f c show ?thesis
    unfolding o s unfolding service_def read_def render_def col_def tabs_def out0_def
    by (intro conjI)
qed

text \<open>
  Claim C10 as stated holds for whatever tables the chunks return.  Two responses with the
  labels \<open>Entry\<close>, \<open>Accession\<close> and \<open>Sequence\<close> give tables with two columns labelled
  \<open>UniProt_ID\<close>; rows are then compared on both, and the accession \<open>P00330\<close>, returned by both
  chunks with different second cells, is kept twice.
\<close>

theorem combine_chunks_two_id_columns_counterexample:
  "normalize_columns
     \<lparr>columns = [''Entry'', ''Accession'', ''Sequence''],
      data = [[Some ''P00330'', Some ''P00330'', Some ''MSIPETQKGV'']]\<rparr>
   = \<lparr>columns = [''UniProt_ID'', ''UniProt_ID'', ''Sequence'', ''Length'', ''Organism'',
                 ''Protein_name'', ''Gene_name''],
      data = [[Some ''P00330'', Some ''P00330'', Some ''MSIPETQKGV'', None, None, None, None]]\<rparr>
   \<and> normalize_columns
     \<lparr>columns = [''Entry'', ''Accession'', ''Sequence''],
      data = [[Some ''P00330'', Some ''A0A023'', Some ''MSIPETQKGX'']]\<rparr>
   = \<lparr>columns = [''UniProt_ID'', ''UniProt_ID'', ''Sequence'', ''Length'', ''Organism'',
                 ''Protein_name'', ''Gene_name''],
      data = [[Some ''P00330'', Some ''A0A023'', Some ''MSIPETQKGX'', None, None, None, None]]\<rparr>
   \<and> combine_chunks
     [\<lparr>columns = [''UniProt_ID'', ''UniProt_ID'', ''Sequence'', ''Length'', ''Organism'',
                  ''Protein_name'', ''Gene_name''],
       data = [[Some ''P00330'', Some ''P00330'', Some ''MSIPETQKGV'', None, None, None, None]]\<rparr>,
      \<lparr>columns = [''UniProt_ID'', ''UniProt_ID'', ''Sequence'', ''Length'', ''Organism'',
                  ''Protein_name'', ''Gene_name''],
       data = [[Some ''P00330'', Some ''A0A023'', Some ''MSIPETQKGX'', None, None, None, None]]\<rparr>]
   = Inr (Some
       \<lparr>columns = [''UniProt_ID'', ''UniProt_ID'', ''Sequence'', ''Length'', ''Organism'',
                    ''Protein_name'', ''Gene_name''],
         data = [[Some ''P00330'', Some ''P00330'', Some ''MSIPETQKGV'', None, None, None, None],
                 [Some ''P00330'', Some ''A0A023'', Some ''MSIPETQKGX'', None, None, None, None]]\<rparr>)"
  by code_simp

end
